theory Spec2Isabelle
  imports Complex_Main
begin

section \<open>RF Monitor: the control loop of \<^verbatim>\<open>rfmonitor/gui.py\<close>\<close>

text \<open>
  The development embeds the event handlers of \<^verbatim>\<open>FrameMain\<close> (file
  \<^verbatim>\<open>src/rfmonitor/gui.py\<close>) as functions on an explicit state record.

  Conventions.
  \<^item> Python floats (power levels in dB, frequencies in MHz, timestamps in seconds) are
    modelled as \<^typ>\<open>real\<close>: rounding, NaN and the infinities are not modelled.
  \<^item> An exception is a value of \<open>py_error\<close>; a handler returns the state it leaves
    behind together with the exception it raised, if any (in-place mutations done before a
    raise stay done, and the wx main loop goes on with the next event).
  \<^item> Clock readings (\<^verbatim>\<open>time.time()\<close>, the wx timer) are the argument \<open>now\<close>.
  \<^item> Calls into collaborators that only act on the outside world (message boxes, the
    alert sound, the export channel, the status bar, GPS threads) are logged in fields of
    the state. Window chrome (title, menu enabling, sizer layout, the timeline dialog) is
    not modelled.
\<close>

subsection \<open>Signals and monitors\<close>

type_synonym location = "real \<times> real"

text \<open>
  Modelled from the spec: the classes \<^verbatim>\<open>Signal\<close>, \<^verbatim>\<open>Monitor\<close> and
  \<^verbatim>\<open>PanelMonitor\<close> (modules \<^verbatim>\<open>rfmonitor.monitor\<close>, \<^verbatim>\<open>rfmonitor.panel_monitor\<close>)
  are not among the sources. The records follow the data model of the spec (section 3); the
  field \<^verbatim>\<open>end\<close> of a signal is called \<open>sig_end\<close>, \<open>None\<close> while the signal
  is open.
\<close>

record signal =
  start :: real
  sig_end :: "real option"
  position :: "location option"

record monitor =
  frequency :: real
  enabled :: bool
  threshold :: real
  calibrationOffset :: real
  alertEnabled :: bool
  recording :: bool
  currentSignal :: "signal option"
  signals :: "signal list"
  periods :: "(real \<times> bool) list"
  colour :: nat

abbreviation get_frequency :: "monitor \<Rightarrow> real" where
  "get_frequency m \<equiv> frequency m"

abbreviation get_enabled :: "monitor \<Rightarrow> bool" where
  "get_enabled m \<equiv> enabled m"

text \<open>
  Modelled from the spec: the transition from Open to Idle of section 4.2, a part of
  \<^verbatim>\<open>PanelMonitor.set_level\<close>, which is not among the sources. The open signal gets
  its end, is appended to the signals and is returned.
\<close>

definition close_signal :: "monitor \<Rightarrow> signal \<Rightarrow> real \<Rightarrow> monitor \<times> signal option" where
  "close_signal m s t =
     (let s' = s\<lparr>sig_end := Some t\<rparr>
      in (m\<lparr>currentSignal := None, signals := signals m @ [s']\<rparr>, Some s'))"

text \<open>
  Modelled from the spec: \<^verbatim>\<open>PanelMonitor.set_level\<close>, the state machine of section 4.2,
  is not among the sources. The monitor is Idle when \<open>currentSignal\<close> is \<open>None\<close> and
  Open otherwise. A level \<open>None\<close> is what the control loop passes when recording stops.
  While \<open>recording\<close> is false the update is ignored (section 3). The result is the new
  monitor and the just-completed signal, if any.
\<close>

definition set_level ::
  "monitor \<Rightarrow> real option \<Rightarrow> real \<Rightarrow> location option \<Rightarrow> monitor \<times> signal option" where
  "set_level m p t pos =
     (if \<not> recording m then (m, None)
      else case currentSignal m of
        None \<Rightarrow>
          (case p of
             None \<Rightarrow> (m, None)
           | Some v \<Rightarrow>
               if v \<ge> threshold m + calibrationOffset m
               then (m\<lparr>currentSignal := Some \<lparr>start = t, sig_end = None, position = pos\<rparr>\<rparr>, None)
               else (m, None))
      | Some s \<Rightarrow>
          (case p of
             None \<Rightarrow> close_signal m s t
           | Some v \<Rightarrow>
               if v \<ge> threshold m + calibrationOffset m then (m, None)
               else close_signal m s t))"

text \<open>
  Modelled from the spec: \<^verbatim>\<open>PanelMonitor.set_recording\<close>. Each toggle sets the flag and
  appends its timestamp to \<open>periods\<close> (append-only; a recording range is the span between
  a \<open>True\<close> entry and the next \<open>False\<close> entry).
\<close>

definition set_recording :: "monitor \<Rightarrow> bool \<Rightarrow> real \<Rightarrow> monitor" where
  "set_recording m r t = m\<lparr>recording := r, periods := periods m @ [(t, r)]\<rparr>"

text \<open>
  Modelled from the spec: \<^verbatim>\<open>PanelMonitor.set_enabled\<close>. A disabled monitor keeps its
  state; enabling a disabled monitor starts fresh from Idle (section 4.2, edge cases).
\<close>

definition set_enabled :: "monitor \<Rightarrow> bool \<Rightarrow> monitor" where
  "set_enabled m b =
     (if b \<and> \<not> enabled m then m\<lparr>enabled := True, currentSignal := None\<rparr>
      else m\<lparr>enabled := b\<rparr>)"

subsection \<open>Exceptions\<close>

datatype py_error = IndexError | ValueError | IOError

subsection \<open>Bin lookup of the dispatch\<close>

text \<open>
  \<^verbatim>\<open>index = numpy.where(freq == event['f'])[0]\<close> (with \<^verbatim>\<open>event['f']\<close> a numpy
  array, compared elementwise) is the array of all positions whose frequency equals \<open>freq\<close>; \<^verbatim>\<open>levels[index]\<close> reads the levels at these positions and
  raises IndexError when one of them is outside \<open>levels\<close>; \<^verbatim>\<open>[0]\<close> takes the first
  and raises IndexError when there is none.
\<close>

definition where_eq :: "real \<Rightarrow> real list \<Rightarrow> nat list" where
  "where_eq freq f = filter (\<lambda>i. f ! i = freq) [0..<length f]"

definition level_at :: "real \<Rightarrow> real list \<Rightarrow> real list \<Rightarrow> py_error + real" where
  "level_at freq f lv =
     (let index = where_eq freq f
      in if list_ex (\<lambda>i. length lv \<le> i) index then Inl IndexError
         else case index of [] \<Rightarrow> Inl IndexError | i # _ \<Rightarrow> Inr (lv ! i))"

subsection \<open>Collaborators and constants that are not in the sources\<close>

text \<open>
  Modelled from the spec: \<^verbatim>\<open>rfmonitor.file.format_recording\<close> is not among the sources.
  An export record holds the frequency, start, end and position of a completed signal
  (spec, section 6).
\<close>

record export_record =
  rec_frequency :: real
  rec_start :: real
  rec_end :: "real option"
  rec_position :: "location option"

definition format_recording :: "real \<Rightarrow> signal \<Rightarrow> export_record" where
  "format_recording freq s =
     \<lparr>rec_frequency = freq, rec_start = start s, rec_end = sig_end s,
      rec_position = position s\<rparr>"

text \<open>
  The constants of \<^verbatim>\<open>rfmonitor.constants\<close> and the library functions the handlers call
  are parameters: \<open>log10\<close> is \<^verbatim>\<open>numpy.log10\<close> on one element, \<open>load_recordings\<close> is
  \<^verbatim>\<open>rfmonitor.file.load_recordings\<close> (frequency, gain, calibration and the saved
  monitors, or the exception it raises), \<open>PanelMonitor\<close> is a freshly constructed
  monitor panel.
\<close>

record env =
  BINS :: nat
  LEVEL_MIN :: real
  GPS_RETRY :: real
  ALERT_LENGTH :: real
  log10 :: "real \<Rightarrow> real"
  load_recordings :: "string \<Rightarrow> py_error + (real \<times> real \<times> real \<times> monitor list)"
  PanelMonitor :: monitor

definition COLOURS :: nat where
  "COLOURS = 15"

subsection \<open>The state of \<^verbatim>\<open>FrameMain\<close>\<close>

datatype status_text = Text string | LocText location

datatype spectrum_view = Blank | Spectrum "real list" "real list" real "monitor list"

text \<open>
  The first group of fields are attributes of \<^verbatim>\<open>FrameMain\<close> (without the leading
  underscore); \<open>server\<close> is \<open>None\<close> or the one server object, \<open>gps\<close> is \<open>None\<close>
  or the number of the \<^verbatim>\<open>Gps\<close> instance held, \<open>receive\<close> holds the arguments the
  receiver was started with. The toolbar and the settings are represented by the values
  they hold. The last group logs effects: the text of status field 1 (\<open>None\<close> until it
  is first set), the message boxes shown, what was written to stderr, the records handed
  to \<^verbatim>\<open>Server.send\<close>, the clock readings at which the alert sound was played, how many
  \<^verbatim>\<open>Gps\<close> instances were constructed, which of them were not stopped yet, and the due
  times of the pending \<^verbatim>\<open>wx.CallLater\<close> callbacks (all of them \<^verbatim>\<open>__start_gps\<close>).
\<close>

record state =
  monitors :: "monitor list"
  freqs :: "real list"
  levels :: "real list"
  filename :: "string option"
  receive :: "(real \<times> real \<times> real) option"
  dialogSpectrum :: "spectrum_view option"
  gps :: "nat option"
  location :: "location option"
  isSaved :: bool
  server :: "unit option"
  alertLast :: real
  toolbar_freq :: real
  toolbar_gain :: real
  toolbar_cal :: real
  settings_gps_enabled :: bool
  status :: "status_text option"
  messages :: "string list"
  stderr :: "string list"
  sent :: "export_record list"
  alertPlayed :: "real list"
  gps_started :: nat
  gps_active :: "nat list"
  timers :: "real list"

subsection \<open>\<^verbatim>\<open>__on_scan_data\<close>\<close>

text \<open>
  \<^verbatim>\<open>self._levels += levels\<close> on numpy arrays: elementwise when the shapes agree, the
  single element broadcast when \<open>levels\<close> has length 1, ValueError otherwise (and
  \<^verbatim>\<open>self._levels\<close> untouched).
\<close>

definition iadd :: "real list \<Rightarrow> real list \<Rightarrow> py_error + real list" where
  "iadd a b =
     (if length b = length a then Inr (map2 (+) a b)
      else if length b = 1 then Inr (map (\<lambda>x. x + hd b) a)
      else Inl ValueError)"

text \<open>The body of the loop for one monitor, up to the call of \<^verbatim>\<open>set_level\<close>.\<close>

definition scan_monitor ::
  "real list \<Rightarrow> real list \<Rightarrow> real \<Rightarrow> location option \<Rightarrow> monitor
     \<Rightarrow> py_error + (monitor \<times> signal option)" where
  "scan_monitor f lv ts loc m =
     (if get_enabled m then
        (case level_at (get_frequency m) f lv of
           Inl e \<Rightarrow> Inl e
         | Inr v \<Rightarrow> Inr (set_level m (Some v) ts loc))
      else Inr (m, None))"

text \<open>
  The records sent for the signal an update returned: one, if the signal is there, has an
  end and the server reference is not \<^verbatim>\<open>None\<close>.
\<close>

definition exports :: "bool \<Rightarrow> real \<Rightarrow> signal option \<Rightarrow> export_record list" where
  "exports srv freq sg =
     (case sg of
        None \<Rightarrow> []
      | Some s \<Rightarrow> if sig_end s \<noteq> None \<and> srv then [format_recording freq s] else [])"

text \<open>
  The loop over \<^verbatim>\<open>self._monitors\<close>: the monitors as the loop leaves them, the flag
  \<^verbatim>\<open>updated\<close>, the records sent, and the exception that ended the loop early, if any
  (the monitors before the failing one are updated, the others are not).
\<close>

fun scan_monitors ::
  "real list \<Rightarrow> real list \<Rightarrow> real \<Rightarrow> location option \<Rightarrow> bool \<Rightarrow> monitor list
     \<Rightarrow> monitor list \<times> bool \<times> export_record list \<times> py_error option" where
  "scan_monitors f lv ts loc srv [] = ([], False, [], None)"
| "scan_monitors f lv ts loc srv (m # ms) =
     (case scan_monitor f lv ts loc m of
        Inl e \<Rightarrow> (m # ms, False, [], Some e)
      | Inr (m', sg) \<Rightarrow>
          (case scan_monitors f lv ts loc srv ms of
             (ms', updated, out, err) \<Rightarrow>
               (m' # ms', sg \<noteq> None \<or> updated,
                exports srv (get_frequency m) sg @ out, err)))"

definition set_spectrum :: "state \<Rightarrow> real \<Rightarrow> state" where
  "set_spectrum st ts =
     (case dialogSpectrum st of
        None \<Rightarrow> st
      | Some _ \<Rightarrow>
          st\<lparr>dialogSpectrum :=
               Some (Spectrum (freqs st) (levels st) ts (filter get_enabled (monitors st)))\<rparr>)"

definition on_scan_data :: "env \<Rightarrow> state \<Rightarrow> real list \<Rightarrow> real list \<Rightarrow> real
     \<Rightarrow> state \<times> py_error option" where
  "on_scan_data E st l f ts =
     (let lv = map (\<lambda>x. log10 E x * 10) l in
      case iadd (levels st) lv of
        Inl e \<Rightarrow> (st, Some e)
      | Inr sm \<Rightarrow>
          (case scan_monitors f lv ts (location st) (server st \<noteq> None) (monitors st) of
             (ms, updated, out, err) \<Rightarrow>
               (let st1 = st\<lparr>levels := map (\<lambda>x. x / 2) sm, monitors := ms,
                              sent := sent st @ out\<rparr>
                in case err of
                     Some e \<Rightarrow> (st1, Some e)
                   | None \<Rightarrow>
                       (set_spectrum
                          (if updated \<and> isSaved st1 then st1\<lparr>isSaved := False\<rparr> else st1) ts,
                        None))))"

subsection \<open>The position source: \<^verbatim>\<open>__start_gps\<close>, \<^verbatim>\<open>__stop_gps\<close>, \<^verbatim>\<open>__restart_gps\<close>\<close>

definition start_gps :: "state \<Rightarrow> state" where
  "start_gps st =
     (if gps st = None \<and> settings_gps_enabled st then
        st\<lparr>status := Some (Text ''Staring GPS...''),
           gps := Some (gps_started st),
           gps_active := gps_active st @ [gps_started st],
           gps_started := Suc (gps_started st)\<rparr>
      else st)"

definition stop_gps :: "state \<Rightarrow> state" where
  "stop_gps st =
     (case gps st of
        None \<Rightarrow> st
      | Some g \<Rightarrow> st\<lparr>gps_active := removeAll g (gps_active st), gps := None\<rparr>)"

text \<open>
  \<^verbatim>\<open>wx.CallLater(GPS_RETRY * 1000, self.__start_gps)\<close> registers a one-shot callback:
  the timer calls \<^verbatim>\<open>__start_gps\<close> once, when \<^verbatim>\<open>GPS_RETRY * 1000\<close> milliseconds have
  passed. The pending callback is recorded by its due time in seconds.
\<close>

definition restart_gps :: "env \<Rightarrow> real \<Rightarrow> state \<Rightarrow> state" where
  "restart_gps E now st =
     (let st1 = stop_gps st in st1\<lparr>timers := timers st1 @ [now + GPS_RETRY E]\<rparr>)"

text \<open>
  The wx timer at clock reading \<open>now\<close>: every pending callback that is due runs once and is
  gone; the others stay pending.
\<close>

fun run_callbacks :: "state \<Rightarrow> real list \<Rightarrow> state" where
  "run_callbacks st [] = st"
| "run_callbacks st (d # ds) = run_callbacks (start_gps st) ds"

definition on_timer :: "real \<Rightarrow> state \<Rightarrow> state" where
  "on_timer now st =
     run_callbacks (st\<lparr>timers := filter (\<lambda>d. \<not> d \<le> now) (timers st)\<rparr>)
       (filter (\<lambda>d. d \<le> now) (timers st))"

subsection \<open>\<^verbatim>\<open>__on_event\<close>\<close>

datatype event =
    SCAN_ERROR string
  | SCAN_DATA "real list" "real list" real
  | SERVER_ERROR string
  | GPS_ERROR string
  | GPS_WARN string
  | GPS_TIMEOUT string
  | GPS_LOC location
  | MON_ALERT
  | CHANGED

definition on_server_error :: "state \<Rightarrow> string \<Rightarrow> state" where
  "on_server_error st msg = st\<lparr>stderr := stderr st @ [msg], server := None\<rparr>"

definition on_mon_alert :: "env \<Rightarrow> real \<Rightarrow> state \<Rightarrow> state" where
  "on_mon_alert E now st =
     (if now - alertLast st \<ge> ALERT_LENGTH E
      then st\<lparr>alertLast := now, alertPlayed := alertPlayed st @ [now]\<rparr>
      else st)"

fun on_event :: "env \<Rightarrow> real \<Rightarrow> state \<Rightarrow> event \<Rightarrow> state \<times> py_error option" where
  "on_event E now st (SCAN_ERROR msg) = (st\<lparr>messages := messages st @ [msg]\<rparr>, None)"
| "on_event E now st (SCAN_DATA l f ts) = on_scan_data E st l f ts"
| "on_event E now st (SERVER_ERROR msg) = (on_server_error st msg, None)"
| "on_event E now st (GPS_ERROR msg) =
     (restart_gps E now (st\<lparr>status := Some (Text msg)\<rparr>), None)"
| "on_event E now st (GPS_WARN msg) = (st\<lparr>status := Some (Text msg)\<rparr>, None)"
| "on_event E now st (GPS_TIMEOUT msg) =
     (restart_gps E now (st\<lparr>status := Some (Text msg)\<rparr>), None)"
| "on_event E now st (GPS_LOC loc) =
     (st\<lparr>location := Some loc, status := Some (LocText loc)\<rparr>, None)"
| "on_event E now st MON_ALERT = (on_mon_alert E now st, None)"
| "on_event E now st CHANGED = (st\<lparr>isSaved := False\<rparr>, None)"

subsection \<open>The toolbar callbacks \<^verbatim>\<open>__on_start\<close>, \<^verbatim>\<open>__on_rec\<close>, \<^verbatim>\<open>__on_stop\<close>\<close>

definition on_start :: "state \<Rightarrow> state" where
  "on_start st =
     (if receive st = None
      then st\<lparr>receive := Some (toolbar_freq st, toolbar_gain st, toolbar_cal st)\<rparr>
      else st)"

definition rec_monitor :: "bool \<Rightarrow> real \<Rightarrow> monitor \<Rightarrow> monitor" where
  "rec_monitor r timestamp m =
     set_recording (if \<not> r then fst (set_level m None timestamp None) else m) r timestamp"

definition on_rec :: "real \<Rightarrow> state \<Rightarrow> bool \<Rightarrow> state" where
  "on_rec now st r =
     (let st1 = (if r then on_start st else st)
      in st1\<lparr>monitors := map (rec_monitor r now) (monitors st1)\<rparr>)"

definition stop_monitor :: "env \<Rightarrow> monitor \<Rightarrow> monitor" where
  "stop_monitor E m = fst (set_level m (Some (LEVEL_MIN E)) 0 None)"

definition on_stop :: "env \<Rightarrow> state \<Rightarrow> state" where
  "on_stop E st =
     st\<lparr>receive := None,
        monitors := map (stop_monitor E) (monitors st),
        dialogSpectrum := map_option (\<lambda>_. Blank) (dialogSpectrum st)\<rparr>"

subsection \<open>The menu: \<^verbatim>\<open>__on_gps\<close>\<close>

text \<open>
  The GPS dialog: \<open>ok\<close> tells whether it was closed with OK, \<open>en\<close> is the value of
  \<^verbatim>\<open>settings.get_gps().enabled\<close> when the dialog has closed (the dialog edits the
  settings object it is given).
\<close>

definition on_gps :: "state \<Rightarrow> bool \<Rightarrow> bool \<Rightarrow> state" where
  "on_gps st ok en =
     (let st1 = st\<lparr>settings_gps_enabled := en\<rparr>
      in if ok then start_gps (stop_gps st1) else st1)"

subsection \<open>\<^verbatim>\<open>open\<close>\<close>

text \<open>\<^verbatim>\<open>os.path.split(filename)[1]\<close>: what follows the last slash.\<close>

definition path_tail :: "string \<Rightarrow> string" where
  "path_tail p = rev (takeWhile (\<lambda>c. c \<noteq> CHR ''/'') (rev p))"

definition corrupt_msg :: "string \<Rightarrow> string" where
  "corrupt_msg fn = CHR 0x27 # path_tail fn @ CHR 0x27 # '' is corrupt.''"

definition clear_monitors :: "state \<Rightarrow> state" where
  "clear_monitors st = st\<lparr>monitors := [], isSaved := False\<rparr>"

definition add_monitor :: "state \<Rightarrow> monitor \<Rightarrow> state" where
  "add_monitor st m =
     st\<lparr>monitors := monitors st @ [m\<lparr>colour := length (monitors st) mod COLOURS\<rparr>]\<rparr>"

text \<open>
  \<^verbatim>\<open>__on_add\<close> appends a fresh panel; \<^verbatim>\<open>__on_del\<close> removes the panel that called back,
  here given by its position \<open>k\<close> in \<^verbatim>\<open>self._monitors\<close> (\<^verbatim>\<open>list.index\<close> raises
  ValueError for a panel that is not in the list).
\<close>

definition on_add :: "env \<Rightarrow> state \<Rightarrow> state" where
  "on_add E st = (add_monitor st (PanelMonitor E))\<lparr>isSaved := False\<rparr>"

definition on_del :: "state \<Rightarrow> nat \<Rightarrow> state \<times> py_error option" where
  "on_del st k =
     (if k < length (monitors st)
      then (st\<lparr>monitors := take k (monitors st) @ drop (Suc k) (monitors st),
               isSaved := False\<rparr>, None)
      else (st, Some ValueError))"

text \<open>
  Modelled from the spec: the setters of \<^verbatim>\<open>PanelMonitor\<close> (\<^verbatim>\<open>set_alert\<close>,
  \<^verbatim>\<open>set_freq\<close>, \<^verbatim>\<open>set_threshold\<close>, \<^verbatim>\<open>set_signals\<close>, \<^verbatim>\<open>set_periods\<close>,
  \<^verbatim>\<open>set_colour\<close>) are not among the sources; each stores its argument in the field of
  the data model. With them, the panel \<^verbatim>\<open>__add_monitors\<close> builds for one loaded monitor.
\<close>

definition load_panel :: "env \<Rightarrow> monitor \<Rightarrow> monitor" where
  "load_panel E m =
     (set_enabled (PanelMonitor E) (get_enabled m))
       \<lparr>alertEnabled := alertEnabled m, frequency := get_frequency m,
        threshold := threshold m, signals := signals m, periods := periods m\<rparr>"

fun add_monitors :: "env \<Rightarrow> state \<Rightarrow> monitor list \<Rightarrow> state" where
  "add_monitors E st [] = st"
| "add_monitors E st (m # ms) = add_monitors E (add_monitor st (load_panel E m)) ms"

definition open_file :: "env \<Rightarrow> state \<Rightarrow> string \<Rightarrow> state \<times> py_error option" where
  "open_file E st fn =
     (case load_recordings E fn of
        Inl ValueError \<Rightarrow> (st\<lparr>messages := messages st @ [corrupt_msg fn]\<rparr>, None)
      | Inl e \<Rightarrow> (st, Some e)
      | Inr (freq, gain, cal, ms) \<Rightarrow>
          (let st1 = st\<lparr>filename := Some fn, toolbar_freq := freq, toolbar_gain := gain,
                         toolbar_cal := cal\<rparr>;
               st2 = add_monitors E (clear_monitors st1) ms
           in (st2\<lparr>isSaved := True\<rparr>, None)))"

subsection \<open>Start-up and sessions\<close>

text \<open>
  The state \<^verbatim>\<open>__init__\<close> leaves behind when a radio was found: \<open>fs\<close> are the bin
  frequencies \<^verbatim>\<open>__on_freq\<close> computed, \<open>freq\<close>, \<open>gain\<close>, \<open>cal\<close> and \<open>gpsEnabled\<close>
  are read from the settings.
\<close>

definition init :: "env \<Rightarrow> real list \<Rightarrow> real \<Rightarrow> real \<Rightarrow> real \<Rightarrow> bool \<Rightarrow> state" where
  "init E fs freq gain cal gpsEnabled =
     start_gps
       \<lparr>monitors = [], freqs = fs, levels = replicate (BINS E) 0, filename = None,
        receive = None, dialogSpectrum = None, gps = None, location = None,
        isSaved = True, server = Some (), alertLast = 0,
        toolbar_freq = freq, toolbar_gain = gain, toolbar_cal = cal,
        settings_gps_enabled = gpsEnabled,
        status = None, messages = [], stderr = [], sent = [], alertPlayed = [],
        gps_started = 0, gps_active = [], timers = []\<rparr>"

text \<open>
  What happens in a session, each with the clock reading at which it happens: an event
  reaches \<^verbatim>\<open>__on_event\<close>, the wx timer runs the callbacks that are due, the toolbar
  calls back (start, record on or off, stop, add a monitor), a monitor panel asks to be
  deleted, a file is opened, the GPS dialog is closed. An exception raised by a handler is
  printed by wx and the session goes on. (Not in a session: clearing the recorded data,
  saving, and leaving the program.)
\<close>

datatype action =
    Event event | Timer | Start | Rec bool | Stop | Add | Del nat | Open string
  | GpsDialog bool bool

fun step :: "env \<Rightarrow> state \<Rightarrow> real \<times> action \<Rightarrow> state" where
  "step E st (now, Event e) = fst (on_event E now st e)"
| "step E st (now, Timer) = on_timer now st"
| "step E st (now, Start) = on_start st"
| "step E st (now, Rec r) = on_rec now st r"
| "step E st (now, Stop) = on_stop E st"
| "step E st (now, Add) = on_add E st"
| "step E st (now, Del k) = fst (on_del st k)"
| "step E st (now, Open fn) = fst (open_file E st fn)"
| "step E st (now, GpsDialog ok en) = on_gps st ok en"

fun run :: "env \<Rightarrow> state \<Rightarrow> (real \<times> action) list \<Rightarrow> state" where
  "run E st [] = st"
| "run E st (a # as) = run E (step E st a) as"

subsection \<open>A monitor over a sequence of operations\<close>

text \<open>
  What the control loop does to one monitor: a dispatch updates it with a level
  (\<^verbatim>\<open>set_level(level, timestamp, location)\<close> in \<^verbatim>\<open>__on_scan_data\<close>), the record
  button starts or stops recording (the loop body of \<^verbatim>\<open>__on_rec\<close>), the stop
  button stops the scan (the loop body of \<^verbatim>\<open>__on_stop\<close>, which passes the timestamp 0).
\<close>

datatype mon_op =
    Update real real "location option"
  | RecordingStart real
  | RecordingStop real
  | ScanStop

fun apply_op :: "env \<Rightarrow> monitor \<Rightarrow> mon_op \<Rightarrow> monitor" where
  "apply_op E m (Update p t pos) = fst (set_level m (Some p) t pos)"
| "apply_op E m (RecordingStart t) = rec_monitor True t m"
| "apply_op E m (RecordingStop t) = rec_monitor False t m"
| "apply_op E m ScanStop = stop_monitor E m"

fun op_time :: "mon_op \<Rightarrow> real" where
  "op_time (Update p t pos) = t"
| "op_time (RecordingStart t) = t"
| "op_time (RecordingStop t) = t"
| "op_time ScanStop = 0"

fun run_ops :: "env \<Rightarrow> monitor \<Rightarrow> mon_op list \<Rightarrow> monitor" where
  "run_ops E m [] = m"
| "run_ops E m (x # xs) = run_ops E (apply_op E m x) xs"

text \<open>
  Feeding a monitor a sequence of updates (level, timestamp, position): the monitor at
  the end and what each update returned.
\<close>

fun feed ::
  "monitor \<Rightarrow> (real option \<times> real \<times> location option) list \<Rightarrow> monitor \<times> signal option list" where
  "feed m [] = (m, [])"
| "feed m ((p, t, pos) # us) =
     (case set_level m p t pos of
        (m', r) \<Rightarrow> (case feed m' us of (m'', rs) \<Rightarrow> (m'', r # rs)))"

text \<open>The signals among the results of a sequence of updates, in order.\<close>

fun completed :: "signal option list \<Rightarrow> signal list" where
  "completed [] = []"
| "completed (None # rs) = completed rs"
| "completed (Some s # rs) = s # completed rs"

text \<open>
  A closed signal has an end, not before its start. The history of a monitor is in order
  when all its signals are closed that way; its open signal is in order at time \<open>t\<close> when
  it has no end and did not start after \<open>t\<close>.
\<close>

definition closed_ok :: "signal \<Rightarrow> bool" where
  "closed_ok s = (case sig_end s of None \<Rightarrow> False | Some e \<Rightarrow> start s \<le> e)"

definition history_ok :: "monitor \<Rightarrow> bool" where
  "history_ok m = list_all closed_ok (signals m)"

definition open_ok :: "real \<Rightarrow> monitor \<Rightarrow> bool" where
  "open_ok t m =
     (case currentSignal m of None \<Rightarrow> True | Some s \<Rightarrow> sig_end s = None \<and> start s \<le> t)"

subsection \<open>Predicates on sessions\<close>




subsection \<open>Concrete inputs\<close>

text \<open>
  An environment, a monitor and a state to evaluate the handlers on. The monitor is
  recording, Idle, enabled, tuned to 100 MHz with threshold 5 dB.
\<close>

definition demo_monitor :: monitor where
  "demo_monitor =
     \<lparr>frequency = 100, enabled = True, threshold = 5, calibrationOffset = 0,
      alertEnabled = True, recording = True, currentSignal = None, signals = [],
      periods = [], colour = 0\<rparr>"

definition demo_env :: env where
  "demo_env =
     \<lparr>BINS = 2, LEVEL_MIN = -100, GPS_RETRY = 5, ALERT_LENGTH = 5, log10 = log 10,
      load_recordings = (\<lambda>fn. Inl ValueError),
      PanelMonitor = demo_monitor\<lparr>recording := False\<rparr>\<rparr>"

definition demo_state :: state where
  "demo_state = (init demo_env [100, 101] 100 0 0 True)\<lparr>monitors := [demo_monitor]\<rparr>"



section \<open>Lemmas\<close>

subsection \<open>Bin lookup\<close>

lemma filter_first:
  "filter P xs = y # ys \<Longrightarrow> \<exists>k<length xs. xs ! k = y \<and> P y \<and> (\<forall>j<k. \<not> P (xs ! j))"
proof (induction xs)
  case Nil
  then show ?case by simp
next
  case (Cons x xs)
  show ?case
  proof (cases "P x")
    case True
    with Cons.prems have "x = y" by simp
    with True show ?thesis by (intro exI[of _ 0]) simp
  next
    case False
    with Cons.prems have "filter P xs = y # ys" by simp
    from Cons.IH[OF this] obtain k where k: "k < length xs" "xs ! k = y" "P y"
      "\<forall>j<k. \<not> P (xs ! j)" by blast
    have "\<forall>j<Suc k. \<not> P ((x # xs) ! j)"
      using False k(4) by (auto simp: less_Suc_eq_0_disj)
    with k show ?thesis by (intro exI[of _ "Suc k"]) simp
  qed
qed

lemma where_eq_Cons:
  assumes "where_eq freq f = i # rest"
  shows "i < length f \<and> f ! i = freq \<and> (\<forall>j<i. f ! j \<noteq> freq)"
proof -
  from assms have "filter (\<lambda>i. f ! i = freq) [0..<length f] = i # rest"
    by (simp add: where_eq_def)
  from filter_first[OF this] obtain k where k: "k < length [0..<length f]"
    "[0..<length f] ! k = i" "f ! i = freq" "\<forall>j<k. f ! ([0..<length f] ! j) \<noteq> freq"
    by blast
  from k(1,2) have ki: "k = i" "i < length f" by simp_all
  from k(4) ki have "\<forall>j<i. f ! j \<noteq> freq" by simp
  with k(3) ki show ?thesis by simp
qed

lemma where_eq_Nil: "where_eq freq f = [] \<longleftrightarrow> (\<forall>i<length f. f ! i \<noteq> freq)"
  by (auto simp: where_eq_def filter_empty_conv)

lemma where_eq_set: "set (where_eq freq f) = {i. i < length f \<and> f ! i = freq}"
  by (auto simp: where_eq_def)

lemma first_match_unique:
  fixes f :: "real list"
  assumes "f ! i = freq" "\<forall>j<i. f ! j \<noteq> freq" "f ! i' = freq" "\<forall>j<i'. f ! j \<noteq> freq"
  shows "i = i'"
proof (rule ccontr)
  assume "i \<noteq> i'"
  then consider "i < i'" | "i' < i" by linarith
  then show False
  proof cases
    case 1
    with assms(4) have "f ! i \<noteq> freq" by blast
    with assms(1) show False by simp
  next
    case 2
    with assms(2) have "f ! i' \<noteq> freq" by blast
    with assms(3) show False by simp
  qed
qed

lemma level_at_Inr_iff:
  "level_at freq f lv = Inr v \<longleftrightarrow>
     (\<forall>i<length f. f ! i = freq \<longrightarrow> i < length lv) \<and>
     (\<exists>i<length f. f ! i = freq \<and> (\<forall>j<i. f ! j \<noteq> freq) \<and> v = lv ! i)"
proof (cases "where_eq freq f")
  case Nil
  then have "\<forall>i<length f. f ! i \<noteq> freq" by (simp add: where_eq_Nil)
  with Nil show ?thesis by (auto simp: level_at_def)
next
  case (Cons i rest)
  note first = where_eq_Cons[OF Cons]
  have inb: "list_ex (\<lambda>i. length lv \<le> i) (where_eq freq f) \<longleftrightarrow>
      \<not> (\<forall>i<length f. f ! i = freq \<longrightarrow> i < length lv)"
    by (auto simp: list_ex_iff where_eq_set)
  show ?thesis
  proof (cases "\<forall>i<length f. f ! i = freq \<longrightarrow> i < length lv")
    case False
    with inb show ?thesis by (simp add: level_at_def)
  next
    case True
    with inb Cons have eq: "level_at freq f lv = Inr (lv ! i)"
      by (simp add: level_at_def)
    show ?thesis
    proof
      assume "level_at freq f lv = Inr v"
      with eq have "v = lv ! i" by simp
      with first True show "(\<forall>i<length f. f ! i = freq \<longrightarrow> i < length lv) \<and>
        (\<exists>i<length f. f ! i = freq \<and> (\<forall>j<i. f ! j \<noteq> freq) \<and> v = lv ! i)" by blast
    next
      assume "(\<forall>i<length f. f ! i = freq \<longrightarrow> i < length lv) \<and>
        (\<exists>i<length f. f ! i = freq \<and> (\<forall>j<i. f ! j \<noteq> freq) \<and> v = lv ! i)"
      then obtain i' where i': "f ! i' = freq" "\<forall>j<i'. f ! j \<noteq> freq" "v = lv ! i'"
        by blast
      from first i'(1,2) have "i = i'" by (intro first_match_unique[of f i freq i']) simp_all
      with eq i'(3) show "level_at freq f lv = Inr v" by simp
    qed
  qed
qed

lemma level_at_error: "level_at freq f lv = Inl e \<Longrightarrow> e = IndexError"
  by (auto simp: level_at_def Let_def split: if_splits list.splits)

subsection \<open>The loop over the monitors\<close>

lemma set_level_frequency: "frequency (fst (set_level m p t pos)) = frequency m"
  by (simp add: set_level_def close_signal_def Let_def split: option.splits)

lemma set_level_enabled: "enabled (fst (set_level m p t pos)) = enabled m"
  by (simp add: set_level_def close_signal_def Let_def split: option.splits)

lemma set_level_returned_in_history:
  "set_level m p t pos = (m', Some s) \<Longrightarrow> s \<in> set (signals m') \<and> sig_end s = Some t"
  by (auto simp: set_level_def close_signal_def Let_def split: option.splits if_splits)

lemma scan_monitor_disabled: "\<not> enabled m \<Longrightarrow> scan_monitor f lv ts loc m = Inr (m, None)"
  by (simp add: scan_monitor_def)

lemma scan_monitor_frequency:
  "scan_monitor f lv ts loc m = Inr (m', sg) \<Longrightarrow> frequency m' = frequency m"
proof -
  assume a: "scan_monitor f lv ts loc m = Inr (m', sg)"
  show ?thesis
  proof (cases "enabled m")
    case False
    with a show ?thesis by (simp add: scan_monitor_def)
  next
    case True
    with a obtain v where "set_level m (Some v) ts loc = (m', sg)"
      by (auto simp: scan_monitor_def split: sum.splits)
    then have "m' = fst (set_level m (Some v) ts loc)" by simp
    then show ?thesis by (simp add: set_level_frequency)
  qed
qed

lemma scan_monitors_length: "length (fst (scan_monitors f lv ts loc srv ms)) = length ms"
  by (induction ms) (auto split: sum.splits prod.splits)

lemma scan_monitors_disabled:
  "k < length ms \<Longrightarrow> \<not> enabled (ms ! k) \<Longrightarrow> fst (scan_monitors f lv ts loc srv ms) ! k = ms ! k"
proof (induction ms arbitrary: k)
  case Nil
  then show ?case by simp
next
  case (Cons m ms)
  show ?case
  proof (cases k)
    case 0
    with Cons.prems show ?thesis
      by (auto simp: scan_monitor_disabled split: prod.splits)
  next
    case (Suc k')
    with Cons.prems have "fst (scan_monitors f lv ts loc srv ms) ! k' = ms ! k'"
      by (intro Cons.IH) simp_all
    with Suc show ?thesis by (auto split: sum.splits prod.splits)
  qed
qed

lemma scan_monitors_nth:
  "k < length ms \<Longrightarrow>
     fst (scan_monitors f lv ts loc srv ms) ! k = ms ! k \<or>
     (\<exists>sg. scan_monitor f lv ts loc (ms ! k) = Inr (fst (scan_monitors f lv ts loc srv ms) ! k, sg))"
proof (induction ms arbitrary: k)
  case Nil
  then show ?case by simp
next
  case (Cons m ms)
  show ?case
  proof (cases k)
    case 0
    then show ?thesis by (auto split: sum.splits prod.splits)
  next
    case (Suc k')
    with Cons.prems have "k' < length ms" by simp
    from Cons.IH[OF this] Suc show ?thesis by (auto split: sum.splits prod.splits)
  qed
qed

lemma scan_monitors_nth_done:
  "snd (snd (snd (scan_monitors f lv ts loc srv ms))) = None \<Longrightarrow> k < length ms \<Longrightarrow>
     \<exists>sg. scan_monitor f lv ts loc (ms ! k) = Inr (fst (scan_monitors f lv ts loc srv ms) ! k, sg)"
proof (induction ms arbitrary: k)
  case Nil
  then show ?case by simp
next
  case (Cons m ms)
  from Cons.prems(1) have tl: "snd (snd (snd (scan_monitors f lv ts loc srv ms))) = None"
    by (auto split: sum.splits prod.splits)
  show ?case
  proof (cases k)
    case 0
    with Cons.prems(1) show ?thesis by (auto split: sum.splits prod.splits)
  next
    case (Suc k')
    with Cons.prems have "k' < length ms" by simp
    from Cons.IH[OF tl this] Suc Cons.prems(1) show ?thesis
      by (auto split: sum.splits prod.splits)
  qed
qed

lemma scan_monitors_server:
  "scan_monitors f lv ts loc srv ms = (ms', updated, out, err) \<Longrightarrow>
     \<exists>out'. scan_monitors f lv ts loc srv' ms = (ms', updated, out', err)"
proof (induction ms arbitrary: ms' updated out err)
  case Nil
  then show ?case by simp
next
  case (Cons m ms)
  show ?case
  proof (cases "scan_monitor f lv ts loc m")
    case (Inl e)
    with Cons.prems show ?thesis by auto
  next
    case (Inr x)
    obtain m1 sg where x: "x = (m1, sg)" by (cases x)
    obtain ms1 u1 o1 e1 where r: "scan_monitors f lv ts loc srv ms = (ms1, u1, o1, e1)"
      by (cases "scan_monitors f lv ts loc srv ms") auto
    from Cons.IH[OF r] obtain o2 where "scan_monitors f lv ts loc srv' ms = (ms1, u1, o2, e1)"
      by blast
    with Cons.prems Inr x r show ?thesis by auto
  qed
qed

lemma exports_dead: "exports False freq sg = []"
  by (simp add: exports_def split: option.splits)

lemma scan_monitors_dead:
  "fst (snd (snd (scan_monitors f lv ts loc False ms))) = []"
  by (induction ms) (auto simp: exports_dead split: sum.splits prod.splits)

lemma scan_monitors_filter:
  "snd (scan_monitors f lv ts loc srv (filter get_enabled ms)) =
   snd (scan_monitors f lv ts loc srv ms)"
proof (induction ms)
  case Nil
  then show ?case by simp
next
  case (Cons m ms)
  show ?case
  proof (cases "enabled m")
    case False
    with Cons.IH show ?thesis
      by (auto simp: scan_monitor_disabled exports_def split: prod.splits)
  next
    case True
    with Cons.IH show ?thesis
      by (auto split: sum.splits prod.splits)
  qed
qed

lemma scan_monitor_returned:
  "scan_monitor f lv ts loc m = Inr (m', Some s) \<Longrightarrow> s \<in> set (signals m')"
  by (auto simp: scan_monitor_def split: if_splits sum.splits
      dest: set_level_returned_in_history)

lemma scan_monitors_history:
  "scan_monitors f lv ts loc srv ms = (ms', updated, out, err) \<Longrightarrow> r \<in> set out \<Longrightarrow>
     \<exists>m\<in>set ms'. \<exists>s\<in>set (signals m). r = format_recording (frequency m) s"
proof (induction ms arbitrary: ms' updated out err)
  case Nil
  then show ?case by simp
next
  case (Cons m ms)
  show ?case
  proof (cases "scan_monitor f lv ts loc m")
    case (Inl e)
    with Cons.prems show ?thesis by simp
  next
    case (Inr x)
    obtain m1 sg where x: "x = (m1, sg)" by (cases x)
    obtain ms1 u1 o1 e1 where r: "scan_monitors f lv ts loc srv ms = (ms1, u1, o1, e1)"
      by (cases "scan_monitors f lv ts loc srv ms") auto
    from Cons.prems(1) Inr x r have ms': "ms' = m1 # ms1"
      and out: "out = exports srv (frequency m) sg @ o1" by simp_all
    from Cons.prems(2) out consider "r \<in> set (exports srv (frequency m) sg)" | "r \<in> set o1"
      by auto
    then show ?thesis
    proof cases
      case 1
      then obtain s where s: "sg = Some s" "r = format_recording (frequency m) s"
        by (auto simp: exports_def split: option.splits if_splits)
      from Inr x s(1) have "s \<in> set (signals m1)" "frequency m1 = frequency m"
        by (auto dest: scan_monitor_returned scan_monitor_frequency)
      with s(2) ms' show ?thesis by auto
    next
      case 2
      from Cons.IH[OF r 2] ms' show ?thesis by auto
    qed
  qed
qed

subsection \<open>The dispatch handler\<close>

lemma set_spectrum_fields [simp]:
  "monitors (set_spectrum st ts) = monitors st"
  "levels (set_spectrum st ts) = levels st"
  "sent (set_spectrum st ts) = sent st"
  "server (set_spectrum st ts) = server st"
  "alertLast (set_spectrum st ts) = alertLast st"
  "alertPlayed (set_spectrum st ts) = alertPlayed st"
  "gps (set_spectrum st ts) = gps st"
  "gps_active (set_spectrum st ts) = gps_active st"
  "gps_started (set_spectrum st ts) = gps_started st"
  "timers (set_spectrum st ts) = timers st"
  "settings_gps_enabled (set_spectrum st ts) = settings_gps_enabled st"
  by (simp_all add: set_spectrum_def split: option.splits)

lemma on_scan_data_raise:
  "iadd (levels st) (map (\<lambda>x. log10 E x * 10) l) = Inl e \<Longrightarrow>
     on_scan_data E st l f ts = (st, Some e)"
  by (simp add: on_scan_data_def)

lemma on_scan_data_run:
  assumes "iadd (levels st) (map (\<lambda>x. log10 E x * 10) l) = Inr sm"
    and "scan_monitors f (map (\<lambda>x. log10 E x * 10) l) ts (location st) (server st \<noteq> None)
           (monitors st) = (ms, updated, out, err)"
  shows "monitors (fst (on_scan_data E st l f ts)) = ms"
    and "levels (fst (on_scan_data E st l f ts)) = map (\<lambda>x. x / 2) sm"
    and "sent (fst (on_scan_data E st l f ts)) = sent st @ out"
    and "snd (on_scan_data E st l f ts) = err"
  using assms by (simp_all add: on_scan_data_def Let_def split: option.splits)

lemma on_scan_data_frame:
  "server (fst (on_scan_data E st l f ts)) = server st"
  "alertLast (fst (on_scan_data E st l f ts)) = alertLast st"
  "alertPlayed (fst (on_scan_data E st l f ts)) = alertPlayed st"
  "gps (fst (on_scan_data E st l f ts)) = gps st"
  "gps_active (fst (on_scan_data E st l f ts)) = gps_active st"
  "gps_started (fst (on_scan_data E st l f ts)) = gps_started st"
  "timers (fst (on_scan_data E st l f ts)) = timers st"
  "settings_gps_enabled (fst (on_scan_data E st l f ts)) = settings_gps_enabled st"
  by (simp_all add: on_scan_data_def Let_def split: sum.splits prod.splits option.splits)

lemma iadd_same_length:
  "length b = length a \<Longrightarrow> iadd a b = Inr (map2 (+) a b)"
  by (simp add: iadd_def)

lemma halve_sum:
  "map (\<lambda>x. x / 2) (map2 (+) a (map g l)) = map2 (\<lambda>s x. (s + g x) / 2) a l"
  by (induction a l rule: list_induct2') simp_all

lemma on_scan_data_levels:
  assumes "length l = length (levels st)"
  shows "levels (fst (on_scan_data E st l f ts)) =
           map2 (\<lambda>s x. (s + log10 E x * 10) / 2) (levels st) l"
proof -
  let ?lv = "map (\<lambda>x. log10 E x * 10) l"
  from assms have i: "iadd (levels st) ?lv = Inr (map2 (+) (levels st) ?lv)"
    by (simp add: iadd_same_length)
  obtain ms updated out err where
    "scan_monitors f ?lv ts (location st) (server st \<noteq> None) (monitors st) = (ms, updated, out, err)"
    by (cases "scan_monitors f ?lv ts (location st) (server st \<noteq> None) (monitors st)") auto
  from on_scan_data_run(2)[OF i this]
  have "levels (fst (on_scan_data E st l f ts)) =
      map (\<lambda>x. x / 2) (map2 (+) (levels st) ?lv)" .
  then show ?thesis by (simp only: halve_sum)
qed

lemma on_event_levels_other:
  "(\<And>l f ts. e \<noteq> SCAN_DATA l f ts) \<Longrightarrow> levels (fst (on_event E now st e)) = levels st"
proof (cases e)
  case (SCAN_DATA l f ts)
  moreover assume "\<And>l f ts. e \<noteq> SCAN_DATA l f ts"
  ultimately show ?thesis by blast
qed (simp_all add: on_server_error_def on_mon_alert_def restart_gps_def stop_gps_def
      Let_def split: option.splits)

lemmas demo_simps = demo_state_def demo_env_def init_def start_gps_def demo_monitor_def
    on_scan_data_def iadd_def Let_def scan_monitor_def level_at_def where_eq_def set_level_def
    close_signal_def exports_def format_recording_def set_spectrum_def upt_rec
    eval_nat_numeral

subsection \<open>What the dispatch does to one monitor\<close>

lemma on_scan_data_monitors_length:
  "length (monitors (fst (on_scan_data E st l f ts))) = length (monitors st)"
proof (cases "iadd (levels st) (map (\<lambda>x. log10 E x * 10) l)")
  case (Inl e)
  then show ?thesis by (simp add: on_scan_data_raise)
next
  case (Inr sm)
  let ?r = "scan_monitors f (map (\<lambda>x. log10 E x * 10) l) ts (location st) (server st \<noteq> None)
     (monitors st)"
  obtain ms updated out err where r: "?r = (ms, updated, out, err)" by (cases ?r) auto
  from on_scan_data_run(1)[OF Inr r] scan_monitors_length[of f _ ts "location st" _ "monitors st"] r
  show ?thesis by (metis fst_conv)
qed

lemma scan_monitor_routed:
  assumes "enabled m" "scan_monitor f (map g l) ts loc m = Inr (m', sg)"
  shows "\<exists>i<length f. i < length l \<and> f ! i = frequency m \<and> (\<forall>j<i. f ! j \<noteq> frequency m) \<and>
           m' = fst (set_level m (Some (g (l ! i))) ts loc)"
proof -
  from assms obtain v where v: "level_at (frequency m) f (map g l) = Inr v"
    and m': "set_level m (Some v) ts loc = (m', sg)"
    by (auto simp: scan_monitor_def split: sum.splits)
  from v obtain i where i: "i < length f" "f ! i = frequency m" "\<forall>j<i. f ! j \<noteq> frequency m"
    "v = map g l ! i" and inb: "\<forall>i<length f. f ! i = frequency m \<longrightarrow> i < length (map g l)"
    unfolding level_at_Inr_iff by blast
  from inb i(1,2) have il: "i < length l" by simp
  with i(4) have "v = g (l ! i)" by simp
  with m' have "m' = fst (set_level m (Some (g (l ! i))) ts loc)" by simp
  with i il show ?thesis by blast
qed

lemma on_scan_data_nth:
  assumes k: "k < length (monitors st)" and en: "enabled (monitors st ! k)"
  shows "monitors (fst (on_scan_data E st l f ts)) ! k = monitors st ! k \<or>
     (\<exists>i<length f. i < length l \<and> f ! i = frequency (monitors st ! k) \<and>
        (\<forall>j<i. f ! j \<noteq> frequency (monitors st ! k)) \<and>
        monitors (fst (on_scan_data E st l f ts)) ! k =
          fst (set_level (monitors st ! k) (Some (log10 E (l ! i) * 10)) ts (location st)))"
proof (cases "iadd (levels st) (map (\<lambda>x. log10 E x * 10) l)")
  case (Inl e)
  then show ?thesis by (simp add: on_scan_data_raise)
next
  case (Inr sm)
  let ?lv = "map (\<lambda>x. log10 E x * 10) l"
  let ?r = "scan_monitors f ?lv ts (location st) (server st \<noteq> None) (monitors st)"
  obtain ms updated out err where r: "?r = (ms, updated, out, err)" by (cases ?r) auto
  have ms: "monitors (fst (on_scan_data E st l f ts)) = fst ?r"
    using on_scan_data_run(1)[OF Inr r] r by simp
  from scan_monitors_nth[OF k, of f ?lv ts "location st" "server st \<noteq> None"]
  show ?thesis
  proof
    assume "fst ?r ! k = monitors st ! k"
    with ms show ?thesis by simp
  next
    assume "\<exists>sg. scan_monitor f ?lv ts (location st) (monitors st ! k) = Inr (fst ?r ! k, sg)"
    then obtain sg where "scan_monitor f ?lv ts (location st) (monitors st ! k) = Inr (fst ?r ! k, sg)"
      by blast
    from scan_monitor_routed[OF en this] ms show ?thesis by simp
  qed
qed

lemma on_scan_data_nth_done:
  assumes k: "k < length (monitors st)" and en: "enabled (monitors st ! k)"
    and fin: "snd (on_scan_data E st l f ts) = None"
  shows "\<exists>i<length f. i < length l \<and> f ! i = frequency (monitors st ! k) \<and>
        (\<forall>j<i. f ! j \<noteq> frequency (monitors st ! k)) \<and>
        monitors (fst (on_scan_data E st l f ts)) ! k =
          fst (set_level (monitors st ! k) (Some (log10 E (l ! i) * 10)) ts (location st))"
proof (cases "iadd (levels st) (map (\<lambda>x. log10 E x * 10) l)")
  case (Inl e)
  with fin show ?thesis by (simp add: on_scan_data_raise)
next
  case (Inr sm)
  let ?lv = "map (\<lambda>x. log10 E x * 10) l"
  let ?r = "scan_monitors f ?lv ts (location st) (server st \<noteq> None) (monitors st)"
  obtain ms updated out err where r: "?r = (ms, updated, out, err)" by (cases ?r) auto
  have ms: "monitors (fst (on_scan_data E st l f ts)) = fst ?r"
    using on_scan_data_run(1)[OF Inr r] r by simp
  from on_scan_data_run(4)[OF Inr r] fin r have "snd (snd (snd ?r)) = None" by simp
  from scan_monitors_nth_done[OF this k]
  obtain sg where "scan_monitor f ?lv ts (location st) (monitors st ! k) = Inr (fst ?r ! k, sg)"
    by blast
  from scan_monitor_routed[OF en this] ms show ?thesis by simp
qed

subsection \<open>What each handler leaves alone\<close>

lemma add_monitors_frame:
  "server (add_monitors E st ms) = server st"
  "sent (add_monitors E st ms) = sent st"
  "alertLast (add_monitors E st ms) = alertLast st"
  "alertPlayed (add_monitors E st ms) = alertPlayed st"
  "gps (add_monitors E st ms) = gps st"
  "gps_active (add_monitors E st ms) = gps_active st"
  "gps_started (add_monitors E st ms) = gps_started st"
  "timers (add_monitors E st ms) = timers st"
  "settings_gps_enabled (add_monitors E st ms) = settings_gps_enabled st"
  "levels (add_monitors E st ms) = levels st"
  by (induction ms arbitrary: st; simp add: add_monitor_def)+

lemma open_file_frame:
  "server (fst (open_file E st fn)) = server st"
  "sent (fst (open_file E st fn)) = sent st"
  "alertLast (fst (open_file E st fn)) = alertLast st"
  "alertPlayed (fst (open_file E st fn)) = alertPlayed st"
  "gps (fst (open_file E st fn)) = gps st"
  "gps_active (fst (open_file E st fn)) = gps_active st"
  "gps_started (fst (open_file E st fn)) = gps_started st"
  "timers (fst (open_file E st fn)) = timers st"
  "settings_gps_enabled (fst (open_file E st fn)) = settings_gps_enabled st"
  "levels (fst (open_file E st fn)) = levels st"
  by (simp_all add: open_file_def add_monitors_frame clear_monitors_def Let_def
      split: sum.splits py_error.splits prod.splits)

lemma toolbar_frame:
  "server (on_start st) = server st" "sent (on_start st) = sent st"
  "alertLast (on_start st) = alertLast st" "alertPlayed (on_start st) = alertPlayed st"
  "gps (on_start st) = gps st" "gps_active (on_start st) = gps_active st"
  "gps_started (on_start st) = gps_started st" "timers (on_start st) = timers st"
  "settings_gps_enabled (on_start st) = settings_gps_enabled st"
  "server (on_rec now st r) = server st" "sent (on_rec now st r) = sent st"
  "alertLast (on_rec now st r) = alertLast st" "alertPlayed (on_rec now st r) = alertPlayed st"
  "gps (on_rec now st r) = gps st" "gps_active (on_rec now st r) = gps_active st"
  "gps_started (on_rec now st r) = gps_started st" "timers (on_rec now st r) = timers st"
  "settings_gps_enabled (on_rec now st r) = settings_gps_enabled st"
  "server (on_stop E st) = server st" "sent (on_stop E st) = sent st"
  "alertLast (on_stop E st) = alertLast st" "alertPlayed (on_stop E st) = alertPlayed st"
  "gps (on_stop E st) = gps st" "gps_active (on_stop E st) = gps_active st"
  "gps_started (on_stop E st) = gps_started st" "timers (on_stop E st) = timers st"
  "settings_gps_enabled (on_stop E st) = settings_gps_enabled st"
  by (simp_all add: on_start_def on_rec_def on_stop_def Let_def)

lemma menu_frame:
  "server (on_add E st) = server st" "sent (on_add E st) = sent st"
  "alertLast (on_add E st) = alertLast st" "alertPlayed (on_add E st) = alertPlayed st"
  "gps (on_add E st) = gps st" "gps_active (on_add E st) = gps_active st"
  "gps_started (on_add E st) = gps_started st" "timers (on_add E st) = timers st"
  "settings_gps_enabled (on_add E st) = settings_gps_enabled st"
  "server (fst (on_del st k)) = server st" "sent (fst (on_del st k)) = sent st"
  "alertLast (fst (on_del st k)) = alertLast st"
  "alertPlayed (fst (on_del st k)) = alertPlayed st"
  "gps (fst (on_del st k)) = gps st" "gps_active (fst (on_del st k)) = gps_active st"
  "gps_started (fst (on_del st k)) = gps_started st" "timers (fst (on_del st k)) = timers st"
  "settings_gps_enabled (fst (on_del st k)) = settings_gps_enabled st"
  by (simp_all add: on_add_def add_monitor_def on_del_def)

lemma start_gps_frame:
  "server (start_gps st) = server st" "sent (start_gps st) = sent st"
  "alertLast (start_gps st) = alertLast st" "alertPlayed (start_gps st) = alertPlayed st"
  "timers (start_gps st) = timers st"
  "settings_gps_enabled (start_gps st) = settings_gps_enabled st"
  by (simp_all add: start_gps_def)

lemma stop_gps_frame:
  "server (stop_gps st) = server st" "sent (stop_gps st) = sent st"
  "alertLast (stop_gps st) = alertLast st" "alertPlayed (stop_gps st) = alertPlayed st"
  "timers (stop_gps st) = timers st" "gps_started (stop_gps st) = gps_started st"
  "settings_gps_enabled (stop_gps st) = settings_gps_enabled st"
  by (simp_all add: stop_gps_def split: option.splits)

lemma on_gps_frame:
  "server (on_gps st ok en) = server st" "sent (on_gps st ok en) = sent st"
  "alertLast (on_gps st ok en) = alertLast st" "alertPlayed (on_gps st ok en) = alertPlayed st"
  "timers (on_gps st ok en) = timers st"
  by (simp_all add: on_gps_def Let_def start_gps_frame stop_gps_frame)

lemma run_callbacks_frame:
  "server (run_callbacks st ds) = server st" "sent (run_callbacks st ds) = sent st"
  "alertLast (run_callbacks st ds) = alertLast st"
  "alertPlayed (run_callbacks st ds) = alertPlayed st"
  "timers (run_callbacks st ds) = timers st"
  "settings_gps_enabled (run_callbacks st ds) = settings_gps_enabled st"
  by (induction ds arbitrary: st; simp add: start_gps_frame)+

lemma on_timer_frame:
  "server (on_timer now st) = server st" "sent (on_timer now st) = sent st"
  "alertLast (on_timer now st) = alertLast st"
  "alertPlayed (on_timer now st) = alertPlayed st"
  "settings_gps_enabled (on_timer now st) = settings_gps_enabled st"
  by (simp_all add: on_timer_def run_callbacks_frame)


lemma restart_gps_frame:
  "server (restart_gps E now st) = server st" "sent (restart_gps E now st) = sent st"
  "alertLast (restart_gps E now st) = alertLast st"
  "alertPlayed (restart_gps E now st) = alertPlayed st"
  "gps_started (restart_gps E now st) = gps_started st"
  "gps (restart_gps E now st) = None"
  "timers (restart_gps E now st) = timers st @ [now + GPS_RETRY E]"
  "settings_gps_enabled (restart_gps E now st) = settings_gps_enabled st"
  by (simp_all add: restart_gps_def Let_def stop_gps_def split: option.splits)

lemma on_scan_data_dead:
  assumes "server st = None"
  shows "sent (fst (on_scan_data E st l f ts)) = sent st"
proof (cases "iadd (levels st) (map (\<lambda>x. log10 E x * 10) l)")
  case (Inl e)
  then show ?thesis by (simp add: on_scan_data_raise)
next
  case (Inr sm)
  let ?r = "scan_monitors f (map (\<lambda>x. log10 E x * 10) l) ts (location st) False (monitors st)"
  obtain ms updated out err where r: "?r = (ms, updated, out, err)" by (cases ?r) auto
  with scan_monitors_dead[of f _ ts "location st" "monitors st"] have "out = []"
    by (metis fst_conv snd_conv)
  with on_scan_data_run(3)[OF Inr, of f ts ms updated out err] r assms show ?thesis by simp
qed

lemma on_event_dead:
  assumes "server st = None"
  shows "server (fst (on_event E now st e)) = None \<and> sent (fst (on_event E now st e)) = sent st"
  using assms
  by (cases e) (simp_all add: on_scan_data_frame on_scan_data_dead on_server_error_def
      restart_gps_frame on_mon_alert_def)

lemma step_dead:
  assumes "server st = None"
  shows "server (step E st a) = None \<and> sent (step E st a) = sent st"
proof -
  obtain now x where a: "a = (now, x)" by (cases a)
  show ?thesis unfolding a using assms
    by (cases x) (simp_all add: on_event_dead on_timer_frame toolbar_frame menu_frame
        on_gps_frame open_file_frame)
qed

lemma run_dead:
  "server st = None \<Longrightarrow> server (run E st acts) = None \<and> sent (run E st acts) = sent st"
proof (induction acts arbitrary: st)
  case Nil
  then show ?case by simp
next
  case (Cons a acts)
  from step_dead[OF Cons.prems, of E a] Cons.IH[of "step E st a"] show ?case by simp
qed

subsection \<open>The exporter and the alert over a session\<close>

lemma on_scan_data_server_independent:
  "monitors (fst (on_scan_data E (st\<lparr>server := srv\<rparr>) l f ts)) = monitors (fst (on_scan_data E st l f ts)) \<and>
   snd (on_scan_data E (st\<lparr>server := srv\<rparr>) l f ts) = snd (on_scan_data E st l f ts)"
proof (cases "iadd (levels st) (map (\<lambda>x. log10 E x * 10) l)")
  case (Inl e)
  then have "iadd (levels (st\<lparr>server := srv\<rparr>)) (map (\<lambda>x. log10 E x * 10) l) = Inl e" by simp
  from on_scan_data_raise[OF this] on_scan_data_raise[OF Inl] show ?thesis by simp
next
  case (Inr sm)
  let ?lv = "map (\<lambda>x. log10 E x * 10) l"
  let ?r = "scan_monitors f ?lv ts (location st) (server st \<noteq> None) (monitors st)"
  obtain ms updated out err where r: "?r = (ms, updated, out, err)" by (cases ?r) auto
  from scan_monitors_server[OF r, of "srv \<noteq> None"] obtain out' where
    r': "scan_monitors f ?lv ts (location st) (srv \<noteq> None) (monitors st) = (ms, updated, out', err)"
    by blast
  have i': "iadd (levels (st\<lparr>server := srv\<rparr>)) ?lv = Inr sm" using Inr by simp
  have r'': "scan_monitors f ?lv ts (location (st\<lparr>server := srv\<rparr>))
      (server (st\<lparr>server := srv\<rparr>) \<noteq> None) (monitors (st\<lparr>server := srv\<rparr>)) = (ms, updated, out', err)"
    using r' by simp
  from on_scan_data_run(1,4)[OF Inr r] on_scan_data_run(1,4)[OF i' r'']
  show ?thesis by simp
qed

lemma on_scan_data_sent_history:
  assumes "x \<in> set (drop (length (sent st)) (sent (fst (on_scan_data E st l f ts))))"
  shows "\<exists>m\<in>set (monitors (fst (on_scan_data E st l f ts))). \<exists>s\<in>set (signals m).
           x = format_recording (frequency m) s"
proof (cases "iadd (levels st) (map (\<lambda>x. log10 E x * 10) l)")
  case (Inl e)
  with assms show ?thesis by (simp add: on_scan_data_raise)
next
  case (Inr sm)
  let ?lv = "map (\<lambda>x. log10 E x * 10) l"
  let ?r = "scan_monitors f ?lv ts (location st) (server st \<noteq> None) (monitors st)"
  obtain ms updated out err where r: "?r = (ms, updated, out, err)" by (cases ?r) auto
  from on_scan_data_run(1,3)[OF Inr r] assms have "x \<in> set out"
    and ms: "monitors (fst (on_scan_data E st l f ts)) = ms" by simp_all
  from scan_monitors_history[OF r this(1)] ms show ?thesis by simp
qed

lemma on_event_alert_other:
  "e \<noteq> MON_ALERT \<Longrightarrow>
     alertLast (fst (on_event E now st e)) = alertLast st \<and>
     alertPlayed (fst (on_event E now st e)) = alertPlayed st"
  by (cases e) (simp_all add: on_scan_data_frame on_server_error_def restart_gps_frame)

lemma step_alert_other:
  assumes "snd a \<noteq> Event MON_ALERT"
  shows "alertLast (step E st a) = alertLast st \<and> alertPlayed (step E st a) = alertPlayed st"
proof -
  obtain now x where a: "a = (now, x)" by (cases a)
  show ?thesis unfolding a using assms a
    by (cases x) (simp_all add: on_event_alert_other on_timer_frame toolbar_frame menu_frame
        on_gps_frame open_file_frame)
qed

lemma run_alert_other:
  "\<forall>a\<in>set acts. snd a \<noteq> Event MON_ALERT \<Longrightarrow>
     alertLast (run E st acts) = alertLast st \<and> alertPlayed (run E st acts) = alertPlayed st"
proof (induction acts arbitrary: st)
  case Nil
  then show ?case by simp
next
  case (Cons a acts)
  from Cons.prems have "snd a \<noteq> Event MON_ALERT" by simp
  from step_alert_other[OF this, of E st] Cons show ?case by simp
qed

lemma init_alert: "alertLast (init E fs freq gain cal g) = 0" "alertPlayed (init E fs freq gain cal g) = []"
  by (simp_all add: init_def start_gps_def)

lemma step_alert_inv:
  assumes "alertLast st = last (0 # alertPlayed st)"
  shows "alertLast (step E st a) = last (0 # alertPlayed (step E st a))"
proof (cases "snd a = Event MON_ALERT")
  case True
  then obtain now where "a = (now, Event MON_ALERT)" by (cases a) auto
  with assms show ?thesis by (simp add: on_mon_alert_def)
next
  case False
  from step_alert_other[OF this, of E st] assms show ?thesis by simp
qed

lemma run_alert_inv:
  "alertLast st = last (0 # alertPlayed st) \<Longrightarrow>
     alertLast (run E st acts) = last (0 # alertPlayed (run E st acts))"
proof (induction acts arbitrary: st)
  case Nil
  then show ?case by simp
next
  case (Cons a acts)
  from step_alert_inv[OF Cons.prems, of E a] Cons.IH show ?case by simp
qed

subsection \<open>The position source over a session\<close>

























subsection \<open>The monitor state machine\<close>

lemma set_level_appends:
  "signals (fst (set_level m p t pos)) = signals m @ completed [snd (set_level m p t pos)]"
  by (simp add: set_level_def close_signal_def Let_def split: option.splits)

lemma set_level_returns_iff:
  "snd (set_level m p t pos) \<noteq> None \<longleftrightarrow>
     currentSignal m \<noteq> None \<and> currentSignal (fst (set_level m p t pos)) = None"
  by (simp add: set_level_def close_signal_def Let_def split: option.splits)

lemma completed_Cons: "completed (r # rs) = completed [r] @ completed rs"
  by (cases r) simp_all

lemma feed_appends: "signals (fst (feed m us)) = signals m @ completed (snd (feed m us))"
proof (induction us arbitrary: m)
  case Nil
  then show ?case by simp
next
  case (Cons u us)
  obtain p t pos where u: "u = (p, t, pos)" by (cases u)
  obtain m' r where s: "set_level m p t pos = (m', r)" by (cases "set_level m p t pos")
  obtain m'' rs where f: "feed m' us = (m'', rs)" by (cases "feed m' us")
  from set_level_appends[of m p t pos] s have 1: "signals m' = signals m @ completed [r]" by simp
  from Cons.IH[of m'] f have 2: "signals m'' = signals m' @ completed rs" by simp
  from u s f 1 2 show ?case by (simp add: completed_Cons[of r rs])
qed

lemma three_updates:
  assumes "recording m" "currentSignal m = None"
    and "threshold m + calibrationOffset m \<le> p0" "threshold m + calibrationOffset m \<le> p1"
    and "p2 < threshold m + calibrationOffset m"
  shows "snd (feed m [(Some p0, t0, pos0), (Some p1, t1, pos1), (Some p2, t2, pos2)]) =
           [None, None, Some \<lparr>start = t0, sig_end = Some t2, position = pos0\<rparr>] \<and>
         signals (fst (feed m [(Some p0, t0, pos0), (Some p1, t1, pos1), (Some p2, t2, pos2)])) =
           signals m @ [\<lparr>start = t0, sig_end = Some t2, position = pos0\<rparr>] \<and>
         currentSignal (fst (feed m [(Some p0, t0, pos0), (Some p1, t1, pos1), (Some p2, t2, pos2)])) =
           None"
  using assms by (simp add: set_level_def close_signal_def Let_def)

lemma set_level_inv:
  assumes "history_ok m" "open_ok t0 m" "t0 \<le> t"
  shows "history_ok (fst (set_level m p t pos)) \<and> open_ok t (fst (set_level m p t pos))"
  using assms
  by (auto simp: set_level_def close_signal_def Let_def history_ok_def open_ok_def closed_ok_def
      split: option.splits)

lemma open_ok_mono: "open_ok t0 m \<Longrightarrow> t0 \<le> t \<Longrightarrow> open_ok t m"
  by (auto simp: open_ok_def split: option.splits)

lemma set_recording_inv:
  "history_ok (set_recording m r t) = history_ok m"
  "open_ok t' (set_recording m r t) = open_ok t' m"
  by (simp_all add: set_recording_def history_ok_def open_ok_def)

lemma apply_op_inv:
  assumes "history_ok m" "open_ok t0 m" "t0 \<le> op_time x" "x \<noteq> ScanStop"
  shows "history_ok (apply_op E m x) \<and> open_ok (op_time x) (apply_op E m x)"
proof (cases x)
  case (Update p t pos)
  with assms set_level_inv[of m t0 t "Some p" pos] show ?thesis by simp
next
  case (RecordingStart t)
  with assms show ?thesis
    by (simp add: rec_monitor_def set_recording_inv open_ok_mono[of t0 m t])
next
  case (RecordingStop t)
  with assms set_level_inv[of m t0 t None None] show ?thesis
    by (simp add: rec_monitor_def set_recording_inv)
next
  case ScanStop
  with assms show ?thesis by simp
qed

lemma run_ops_inv:
  "ScanStop \<notin> set ops \<Longrightarrow> sorted (t0 # map op_time ops) \<Longrightarrow> history_ok m \<Longrightarrow> open_ok t0 m \<Longrightarrow>
     history_ok (run_ops E m ops) \<and> open_ok (last (t0 # map op_time ops)) (run_ops E m ops)"
proof (induction ops arbitrary: m t0)
  case Nil
  then show ?case by simp
next
  case (Cons x ops)
  from Cons.prems(2) have le: "t0 \<le> op_time x" and srt: "sorted (op_time x # map op_time ops)"
    by simp_all
  from Cons.prems(1) have ns: "x \<noteq> ScanStop" "ScanStop \<notin> set ops" by auto
  from apply_op_inv[OF Cons.prems(3,4) le ns(1), of E]
  have "history_ok (apply_op E m x)" "open_ok (op_time x) (apply_op E m x)" by simp_all
  from Cons.IH[OF ns(2) srt this] show ?case by simp
qed

lemma open_count:
  assumes "history_ok m" "open_ok t m"
  shows "length (filter (\<lambda>s. sig_end s = None)
           (signals m @ (case currentSignal m of None \<Rightarrow> [] | Some s \<Rightarrow> [s]))) \<le> 1"
proof -
  from assms(1) have "filter (\<lambda>s. sig_end s = None) (signals m) = []"
    by (auto simp: history_ok_def list_all_iff closed_ok_def filter_empty_conv split: option.splits)
  then show ?thesis by (simp split: option.splits)
qed

lemma history_ordered_without_scan_stop:
  assumes "ScanStop \<notin> set ops" and "sorted (t0 # map op_time ops)"
    and "history_ok m" and "open_ok t0 m" and "m' = run_ops E m ops"
  shows "list_all closed_ok (signals m') \<and>
         open_ok (last (t0 # map op_time ops)) m' \<and>
         length (filter (\<lambda>s. sig_end s = None)
           (signals m' @ (case currentSignal m' of None \<Rightarrow> [] | Some s \<Rightarrow> [s]))) \<le> 1"
proof -
  from run_ops_inv[OF assms(1-4), of E] assms(5)
  have "history_ok m'" "open_ok (last (t0 # map op_time ops)) m'" by simp_all
  with open_count[OF this] show ?thesis by (simp add: history_ok_def)
qed

lemmas demo2 = demo_simps on_stop_def stop_monitor_def rec_monitor_def set_recording_def
  history_ok_def closed_ok_def open_ok_def

lemma set_level_ends:
  assumes "list_all (\<lambda>s. sig_end s \<noteq> None) (signals m)"
    and "\<forall>s. currentSignal m = Some s \<longrightarrow> sig_end s = None"
  shows "list_all (\<lambda>s. sig_end s \<noteq> None) (signals (fst (set_level m p t pos))) \<and>
         (\<forall>s. currentSignal (fst (set_level m p t pos)) = Some s \<longrightarrow> sig_end s = None)"
  using assms
  by (auto simp: set_level_def close_signal_def Let_def split: option.splits)

lemma apply_op_ends:
  assumes "list_all (\<lambda>s. sig_end s \<noteq> None) (signals m)"
    and "\<forall>s. currentSignal m = Some s \<longrightarrow> sig_end s = None"
  shows "list_all (\<lambda>s. sig_end s \<noteq> None) (signals (apply_op E m x)) \<and>
         (\<forall>s. currentSignal (apply_op E m x) = Some s \<longrightarrow> sig_end s = None)"
proof (cases x)
  case (Update p t pos)
  with set_level_ends[OF assms, of "Some p" t pos] show ?thesis by simp
next
  case (RecordingStart t)
  with assms show ?thesis by (simp add: rec_monitor_def set_recording_def)
next
  case (RecordingStop t)
  with set_level_ends[OF assms, of None t None] show ?thesis
    by (simp add: rec_monitor_def set_recording_def)
next
  case ScanStop
  with set_level_ends[OF assms, of "Some (LEVEL_MIN E)" 0 None] show ?thesis
    by (simp add: stop_monitor_def)
qed

lemma run_ops_ends:
  "list_all (\<lambda>s. sig_end s \<noteq> None) (signals m) \<Longrightarrow>
   \<forall>s. currentSignal m = Some s \<longrightarrow> sig_end s = None \<Longrightarrow>
     list_all (\<lambda>s. sig_end s \<noteq> None) (signals (run_ops E m ops)) \<and>
     (\<forall>s. currentSignal (run_ops E m ops) = Some s \<longrightarrow> sig_end s = None)"
proof (induction ops arbitrary: m)
  case Nil
  then show ?case by simp
next
  case (Cons x ops)
  from apply_op_ends[OF Cons.prems, of E x] Cons.IH[of "apply_op E m x"] show ?case by simp
qed

lemma one_open_signal_always:
  assumes "list_all (\<lambda>s. sig_end s \<noteq> None) (signals m)"
    and "\<forall>s. currentSignal m = Some s \<longrightarrow> sig_end s = None"
  shows "length (filter (\<lambda>s. sig_end s = None)
           (signals (run_ops E m ops) @
            (case currentSignal (run_ops E m ops) of None \<Rightarrow> [] | Some s \<Rightarrow> [s]))) \<le> 1"
proof -
  from run_ops_ends[OF assms, of E ops]
  have "filter (\<lambda>s. sig_end s = None) (signals (run_ops E m ops)) = []"
    by (auto simp: list_all_iff filter_empty_conv)
  then show ?thesis by (simp split: option.splits)
qed

lemma on_scan_data_disabled:
  assumes k: "k < length (monitors st)" and dis: "\<not> enabled (monitors st ! k)"
  shows "monitors (fst (on_scan_data E st l f ts)) ! k = monitors st ! k"
proof (cases "iadd (levels st) (map (\<lambda>x. log10 E x * 10) l)")
  case (Inl e)
  then show ?thesis by (simp add: on_scan_data_raise)
next
  case (Inr sm)
  let ?lv = "map (\<lambda>x. log10 E x * 10) l"
  let ?r = "scan_monitors f ?lv ts (location st) (server st \<noteq> None) (monitors st)"
  obtain ms updated out err where r: "?r = (ms, updated, out, err)" by (cases ?r) auto
  have "monitors (fst (on_scan_data E st l f ts)) = fst ?r"
    using on_scan_data_run(1)[OF Inr r] r by simp
  with scan_monitors_disabled[OF k dis, of f ?lv ts "location st" "server st \<noteq> None"]
  show ?thesis by simp
qed

lemma on_event_monitors_other:
  "(\<And>l f ts. e \<noteq> SCAN_DATA l f ts) \<Longrightarrow> monitors (fst (on_event E now st e)) = monitors st"
proof (cases e)
  case (SCAN_DATA l f ts)
  moreover assume "\<And>l f ts. e \<noteq> SCAN_DATA l f ts"
  ultimately show ?thesis by blast
qed (simp_all add: on_server_error_def on_mon_alert_def restart_gps_def stop_gps_def
      Let_def split: option.splits)

lemma on_event_disabled:
  assumes k: "k < length (monitors st)" and dis: "\<not> enabled (monitors st ! k)"
  shows "monitors (fst (on_event E now st e)) ! k = monitors st ! k"
proof (cases "\<exists>l f ts. e = SCAN_DATA l f ts")
  case True
  then obtain l f ts where "e = SCAN_DATA l f ts" by blast
  with on_scan_data_disabled[OF k dis] show ?thesis by simp
next
  case False
  then have "monitors (fst (on_event E now st e)) = monitors st"
    by (intro on_event_monitors_other) blast
  then show ?thesis by simp
qed

section \<open>The claims\<close>

subsection \<open>C1: which power value a monitor is routed\<close>

text \<open>
  Claim C1, as the code has it. On a SCAN_DATA dispatch, the power value routed to an enabled
  monitor is the one at the first bin whose frequency is exactly equal to the monitor's
  frequency. There is no nearest-bin lookup: the lookup \<open>level_at\<close> returns a value only
  when a bin frequency equals the monitor's frequency (and every such bin has a level). For
  every dispatch and every enabled monitor \<open>k\<close>, either the dispatch raised and left the
  monitor as it was, or the monitor was updated by \<open>set_level\<close> with ten times the
  \<open>log10\<close> of the power at that first matching bin, the timestamp of the sample and the
  last known position.
\<close>

theorem dispatch_routes_exact_bin:
  assumes "k < length (monitors st)" and "enabled (monitors st ! k)"
    and "on_event E now st (SCAN_DATA l f ts) = (st', err)"
  shows "(monitors st' ! k = monitors st ! k \<and> err \<noteq> None \<or>
          (\<exists>i<length f. i < length l \<and> f ! i = frequency (monitors st ! k) \<and>
             (\<forall>j<i. f ! j \<noteq> frequency (monitors st ! k)) \<and>
             monitors st' ! k =
               fst (set_level (monitors st ! k) (Some (log10 E (l ! i) * 10)) ts (location st)))) \<and>
         (level_at (frequency (monitors st ! k)) f lv = Inr v \<longleftrightarrow>
            (\<forall>i<length f. f ! i = frequency (monitors st ! k) \<longrightarrow> i < length lv) \<and>
            (\<exists>i<length f. f ! i = frequency (monitors st ! k) \<and>
               (\<forall>j<i. f ! j \<noteq> frequency (monitors st ! k)) \<and> v = lv ! i))"
proof -
  from assms(3) have st': "st' = fst (on_scan_data E st l f ts)"
    and err: "err = snd (on_scan_data E st l f ts)" by simp_all
  show ?thesis
  proof (cases err)
    case None
    with err have "snd (on_scan_data E st l f ts) = None" by simp
    from on_scan_data_nth_done[OF assms(1,2) this] st' show ?thesis
      by (simp add: level_at_Inr_iff)
  next
    case (Some e)
    with on_scan_data_nth[OF assms(1,2), of E l f ts] st' show ?thesis
      by (auto simp: level_at_Inr_iff)
  qed
qed

text \<open>
  An instance: the monitor tuned to 100 MHz, bins at 100 and 101 MHz with powers 10 and 1.
  The monitor receives 10 dB, the level of bin 0, and opens a signal at the timestamp 5.
\<close>

theorem dispatch_routes_exact_bin_witness:
  "0 < length (monitors demo_state) \<and> enabled (monitors demo_state ! 0) \<and>
   snd (on_event demo_env 7 demo_state (SCAN_DATA [10, 1] [100, 101] 5)) = None \<and>
   monitors (fst (on_event demo_env 7 demo_state (SCAN_DATA [10, 1] [100, 101] 5))) ! 0 =
     fst (set_level demo_monitor (Some 10) 5 None) \<and>
   currentSignal (monitors (fst (on_event demo_env 7 demo_state
       (SCAN_DATA [10, 1] [100, 101] 5))) ! 0) =
     Some \<lparr>start = 5, sig_end = None, position = None\<rparr> \<and>
   level_at 100 [100, 101] [10, 0] = Inr 10"
  using dispatch_routes_exact_bin[where k = 0 and st = demo_state and E = demo_env and now = 7
      and l = "[10, 1]" and f = "[100, 101]" and ts = 5 and lv = "[10, 0]" and v = 10
      and st' = "fst (on_event demo_env 7 demo_state (SCAN_DATA [10, 1] [100, 101] 5))"
      and err = "snd (on_event demo_env 7 demo_state (SCAN_DATA [10, 1] [100, 101] 5))"]
  by (simp add: demo_simps)

text \<open>
  The claim as the spec words it (the nearest bin within one bin width) fails: a monitor
  tuned to 100.4 MHz, between the bin centres 100 and 101 MHz, receives no value. The
  dispatch raises IndexError and leaves the monitor as it was.
\<close>

theorem between_bins:
  "on_event demo_env 7 (demo_state\<lparr>monitors := [demo_monitor\<lparr>frequency := 1004 / 10\<rparr>]\<rparr>)
     (SCAN_DATA [1, 10] [100, 101] 5) =
   (demo_state\<lparr>monitors := [demo_monitor\<lparr>frequency := 1004 / 10\<rparr>], levels := [0, 5]\<rparr>,
    Some IndexError)"
  by (simp add: demo_simps)

subsection \<open>C2: one signal per threshold crossing\<close>

text \<open>
  Claim C2, as the model of the spec has it. A monitor that is recording and in state Idle,
  fed the levels \<open>p0\<close>, \<open>p1\<close> at or above its threshold (after calibration) and then
  \<open>p2\<close> below it, at the timestamps \<open>t0\<close>, \<open>t1\<close>, \<open>t2\<close>, appends exactly one signal
  with start \<open>t0\<close> and end \<open>t2\<close> to its signals; the third update returns it and the
  first two return nothing. For every update of every monitor, the signals after it are the
  signals before it followed by what the update returned; a signal is appended (and
  returned) if and only if the update took the monitor from Open to Idle. Over any sequence
  of updates the history grows by exactly the returned signals, in order, so none is
  appended twice. (The monitor's update is modelled from the spec.)
\<close>

theorem monitor_signal_cycle:
  "(recording m \<and> currentSignal m = None \<and>
      threshold m + calibrationOffset m \<le> p0 \<and> threshold m + calibrationOffset m \<le> p1 \<and>
      p2 < threshold m + calibrationOffset m \<longrightarrow>
      snd (feed m [(Some p0, t0, pos0), (Some p1, t1, pos1), (Some p2, t2, pos2)]) =
        [None, None, Some \<lparr>start = t0, sig_end = Some t2, position = pos0\<rparr>] \<and>
      signals (fst (feed m [(Some p0, t0, pos0), (Some p1, t1, pos1), (Some p2, t2, pos2)])) =
        signals m @ [\<lparr>start = t0, sig_end = Some t2, position = pos0\<rparr>] \<and>
      currentSignal (fst (feed m [(Some p0, t0, pos0), (Some p1, t1, pos1), (Some p2, t2, pos2)])) =
        None) \<and>
   signals (fst (set_level m p t pos)) = signals m @ completed [snd (set_level m p t pos)] \<and>
   (signals (fst (set_level m p t pos)) \<noteq> signals m \<longleftrightarrow>
      currentSignal m \<noteq> None \<and> currentSignal (fst (set_level m p t pos)) = None) \<and>
   (snd (set_level m p t pos) \<noteq> None \<longleftrightarrow>
      currentSignal m \<noteq> None \<and> currentSignal (fst (set_level m p t pos)) = None) \<and>
   signals (fst (feed m us)) = signals m @ completed (snd (feed m us))"
proof -
  have "signals (fst (set_level m p t pos)) \<noteq> signals m \<longleftrightarrow> snd (set_level m p t pos) \<noteq> None"
    using set_level_appends[of m p t pos] by (cases "snd (set_level m p t pos)") simp_all
  with three_updates[of m p0 p1 p2 t0 pos0 t1 pos1 t2 pos2] set_level_appends[of m p t pos]
    set_level_returns_iff[of m p t pos] feed_appends[of m us]
  show ?thesis by blast
qed

text \<open>An instance: threshold 5 dB, levels 10, 20 and 0 dB at the timestamps 1, 2 and 3.\<close>

theorem monitor_signal_cycle_witness:
  "recording demo_monitor \<and> currentSignal demo_monitor = None \<and>
   threshold demo_monitor + calibrationOffset demo_monitor \<le> 10 \<and>
   threshold demo_monitor + calibrationOffset demo_monitor \<le> 20 \<and>
   0 < threshold demo_monitor + calibrationOffset demo_monitor \<and>
   feed demo_monitor [(Some 10, 1, Some (51, 0)), (Some 20, 2, None), (Some 0, 3, None)] =
     (demo_monitor\<lparr>signals := [\<lparr>start = 1, sig_end = Some 3, position = Some (51, 0)\<rparr>]\<rparr>,
      [None, None, Some \<lparr>start = 1, sig_end = Some 3, position = Some (51, 0)\<rparr>])"
  using monitor_signal_cycle[where m = demo_monitor and ?p0.0 = 10 and ?p1.0 = 20
      and ?p2.0 = 0 and ?t0.0 = 1 and ?t1.0 = 2 and ?t2.0 = 3 and ?pos0.0 = "Some (51, 0)"
      and ?pos1.0 = None and ?pos2.0 = None and p = None and t = 0 and pos = None and us = "[]"]
  by (simp add: demo_monitor_def set_level_def close_signal_def Let_def)

text \<open>
  The claim as the spec words it (every monitor in state Idle) fails for a monitor that is
  not recording: the spec's data model has level updates ignored while \<open>recording\<close> is
  false, so the same three levels leave the monitor as it was and no update returns a
  signal.
\<close>

theorem idle_not_recording_ignores_levels:
  "currentSignal (demo_monitor\<lparr>recording := False\<rparr>) = None \<and>
   threshold (demo_monitor\<lparr>recording := False\<rparr>) +
     calibrationOffset (demo_monitor\<lparr>recording := False\<rparr>) = 5 \<and>
   feed (demo_monitor\<lparr>recording := False\<rparr>)
     [(Some 10, 1, None), (Some 20, 2, None), (Some 0, 3, None)] =
     (demo_monitor\<lparr>recording := False\<rparr>, [None, None, None])"
  by (simp add: demo_monitor_def set_level_def)

subsection \<open>C3: disabled monitors\<close>

text \<open>
  Claim C3, as the code has it. For every event that reaches \<^verbatim>\<open>__on_event\<close> (a SCAN_DATA
  dispatch included), a monitor with \<open>enabled = False\<close> is left exactly as it was: the
  loop body of the dispatch does not call \<open>set_level\<close> for it, and the flag \<open>updated\<close>,
  the records sent and the exception of the dispatch are those of the dispatch over the
  enabled monitors alone. Enabling a disabled monitor starts fresh from Idle and keeps
  its history. The stop button is different: \<^verbatim>\<open>__on_stop\<close> runs its loop body
  (\<open>stop_monitor\<close>, a call of \<open>set_level\<close>) on every monitor, enabled or not.
\<close>

theorem disabled_monitor_frozen_in_dispatch:
  assumes "k < length (monitors st)" and "\<not> enabled (monitors st ! k)"
  shows "monitors (fst (on_event E now st e)) ! k = monitors st ! k \<and>
         scan_monitor f lv ts loc (monitors st ! k) = Inr (monitors st ! k, None) \<and>
         snd (scan_monitors f lv ts loc srv (filter get_enabled (monitors st))) =
           snd (scan_monitors f lv ts loc srv (monitors st)) \<and>
         monitors (on_stop E st) ! k =
           fst (set_level (monitors st ! k) (Some (LEVEL_MIN E)) 0 None) \<and>
         enabled (set_enabled (monitors st ! k) True) \<and>
         currentSignal (set_enabled (monitors st ! k) True) = None \<and>
         signals (set_enabled (monitors st ! k) True) = signals (monitors st ! k)"
  using assms on_event_disabled[OF assms, of E now e]
  by (simp add: scan_monitor_disabled scan_monitors_filter on_stop_def stop_monitor_def
      set_enabled_def)

text \<open>An instance: a dispatch over one disabled monitor changes the smoothed levels only.\<close>

theorem disabled_monitor_frozen_in_dispatch_witness:
  "0 < length (monitors (demo_state\<lparr>monitors := [demo_monitor\<lparr>enabled := False\<rparr>]\<rparr>)) \<and>
   \<not> enabled (monitors (demo_state\<lparr>monitors := [demo_monitor\<lparr>enabled := False\<rparr>]\<rparr>) ! 0) \<and>
   on_event demo_env 7 (demo_state\<lparr>monitors := [demo_monitor\<lparr>enabled := False\<rparr>]\<rparr>)
       (SCAN_DATA [1, 10] [100, 101] 5) =
     (demo_state\<lparr>monitors := [demo_monitor\<lparr>enabled := False\<rparr>], levels := [0, 5]\<rparr>, None)"
  using disabled_monitor_frozen_in_dispatch[where k = 0 and E = demo_env and now = 7
      and st = "demo_state\<lparr>monitors := [demo_monitor\<lparr>enabled := False\<rparr>]\<rparr>"
      and e = "SCAN_DATA [1, 10] [100, 101] 5" and f = "[]" and lv = "[]" and ts = 0
      and loc = None and srv = True]
  by (simp add: demo_simps)

text \<open>
  The claim as the spec words it (unchanged by dispatch and by stop) fails for stop: a
  disabled monitor that is recording with an open signal has the signal closed by
  \<^verbatim>\<open>__on_stop\<close>.
\<close>

theorem stop_changes_disabled_monitor:
  "monitors (on_stop demo_env (demo_state\<lparr>monitors :=
      [demo_monitor\<lparr>enabled := False,
         currentSignal := Some \<lparr>start = 5, sig_end = None, position = None\<rparr>\<rparr>]\<rparr>)) =
     [demo_monitor\<lparr>enabled := False,
        signals := [\<lparr>start = 5, sig_end = Some 0, position = None\<rparr>]\<rparr>]"
  by (simp add: demo2)

subsection \<open>C4: the history of a monitor\<close>

text \<open>
  Claim C4 says that after every sequence of updates, recording stops and stops of the scan
  every closed signal in a monitor's history has start \<open>\<le>\<close> end. The stop of the scan
  breaks it. \<^verbatim>\<open>__on_stop\<close> passes the level \<^verbatim>\<open>LEVEL_MIN\<close> and the timestamp 0 to
  \<open>set_level\<close> of every monitor (its sibling \<^verbatim>\<open>__on_rec\<close> passes
  \<^verbatim>\<open>time.time()\<close>). So for every monitor that is recording, has an open signal that
  started after time 0, and has its threshold (after calibration) above \<^verbatim>\<open>LEVEL_MIN\<close>,
  the stop closes the signal with end 0 and appends it to the history: a closed signal whose
  end is before its start. (The monitor's update is modelled from the spec.)
\<close>

theorem scan_stop_closes_before_start:
  assumes "k < length (monitors st)" and "recording (monitors st ! k)"
    and "currentSignal (monitors st ! k) = Some s" and "0 < start s"
    and "LEVEL_MIN E < threshold (monitors st ! k) + calibrationOffset (monitors st ! k)"
  shows "signals (monitors (step E st (now, Stop)) ! k) =
           signals (monitors st ! k) @ [s\<lparr>sig_end := Some 0\<rparr>] \<and>
         currentSignal (monitors (step E st (now, Stop)) ! k) = None \<and>
         \<not> closed_ok (s\<lparr>sig_end := Some 0\<rparr>)"
  using assms
  by (simp add: on_stop_def stop_monitor_def set_level_def close_signal_def Let_def closed_ok_def)

text \<open>
  The failing input: a dispatch at timestamp 5 opens a signal of the monitor, then the scan
  is stopped. The history holds the signal with start 5 and end 0.
\<close>

theorem scan_stop_closes_before_start_witness:
  "0 < length (monitors (run demo_env demo_state [(5, Event (SCAN_DATA [10, 1] [100, 101] 5))])) \<and>
   recording (monitors (run demo_env demo_state
      [(5, Event (SCAN_DATA [10, 1] [100, 101] 5))]) ! 0) \<and>
   currentSignal (monitors (run demo_env demo_state
      [(5, Event (SCAN_DATA [10, 1] [100, 101] 5))]) ! 0) =
     Some \<lparr>start = 5, sig_end = None, position = None\<rparr> \<and>
   LEVEL_MIN demo_env < threshold demo_monitor + calibrationOffset demo_monitor \<and>
   signals (monitors (run demo_env demo_state
      [(5, Event (SCAN_DATA [10, 1] [100, 101] 5)), (6, Stop)]) ! 0) =
     [\<lparr>start = 5, sig_end = Some 0, position = None\<rparr>] \<and>
   \<not> list_all closed_ok (signals (monitors (run demo_env demo_state
      [(5, Event (SCAN_DATA [10, 1] [100, 101] 5)), (6, Stop)]) ! 0))"
  using scan_stop_closes_before_start[where k = 0 and E = demo_env and now = 6
      and st = "run demo_env demo_state [(5, Event (SCAN_DATA [10, 1] [100, 101] 5))]"
      and s = "\<lparr>start = 5, sig_end = None, position = None\<rparr>"]
  by (simp add: demo2)

subsection \<open>C5: the smoothed spectrum\<close>

text \<open>
  Claim C5. On a SCAN_DATA event whose sample has as many bins as the smoothed spectrum,
  the new smoothed spectrum is \<open>(smoothed + sample) / 2\<close> elementwise, where the sample
  is in dB (ten times \<open>log10\<close> of the power): one step of the moving average, whatever
  the monitors are (any list \<open>ms\<close>, enabled or not) and whether or not the dispatch to
  them raises. No other event changes the smoothed spectrum.
\<close>

theorem smoothed_spectrum_update:
  "(length l = length (levels st) \<longrightarrow>
      levels (fst (on_event E now (st\<lparr>monitors := ms\<rparr>) (SCAN_DATA l f ts))) =
        map2 (\<lambda>s x. (s + log10 E x * 10) / 2) (levels st) l) \<and>
   ((\<forall>l f ts. e \<noteq> SCAN_DATA l f ts) \<longrightarrow> levels (fst (on_event E now st e)) = levels st)"
proof (intro conjI impI)
  assume "length l = length (levels st)"
  then have "length l = length (levels (st\<lparr>monitors := ms\<rparr>))" by simp
  from on_scan_data_levels[OF this, of E f ts]
  show "levels (fst (on_event E now (st\<lparr>monitors := ms\<rparr>) (SCAN_DATA l f ts))) =
        map2 (\<lambda>s x. (s + log10 E x * 10) / 2) (levels st) l" by simp
next
  assume "\<forall>l f ts. e \<noteq> SCAN_DATA l f ts"
  then show "levels (fst (on_event E now st e)) = levels st"
    by (intro on_event_levels_other) blast
qed

text \<open>An instance: smoothed [0, 0], powers [1, 10], that is 0 and 10 dB, give [0, 5].\<close>

theorem smoothed_spectrum_update_witness:
  "length [1, 10 :: real] = length (levels demo_state) \<and>
   levels demo_state = [0, 0] \<and>
   levels (fst (on_event demo_env 7 (demo_state\<lparr>monitors := []\<rparr>)
      (SCAN_DATA [1, 10] [100, 101] 5))) = [0, 5] \<and>
   levels (fst (on_event demo_env 7 demo_state CHANGED)) = [0, 0]"
  using smoothed_spectrum_update[where l = "[1, 10]" and st = demo_state and E = demo_env
      and now = 7 and ms = "[]" and f = "[100, 101]" and ts = 5 and e = CHANGED]
  by (simp add: demo_simps)

subsection \<open>C6: the alert gate\<close>

text \<open>
  Claim C6, as the code has it. In every state a session reaches, the last-alert timestamp
  is the time of the last alert played (0 when none was played). A MON_ALERT event plays the
  alert exactly when at least ALERT_LENGTH seconds have passed since then, and sets the
  timestamp to the time of the event in the same step; otherwise it changes nothing. The
  timestamp is one field of the frame, shared by all monitors; nothing that happens between
  two MON_ALERT events (\<open>mid\<close>: dispatches, other events, timer, toolbar and menu
  callbacks, file loads) changes it. Two MON_ALERT events less than ALERT_LENGTH seconds
  apart, with anything but a MON_ALERT event between them, play the alert at most once, and
  exactly once when the first of them plays it.
\<close>

theorem alert_debounce:
  assumes "st = run E (init E fs freq gain cal g) acts"
    and "st1 = fst (on_event E now1 st MON_ALERT)"
    and "\<forall>a\<in>set mid. snd a \<noteq> Event MON_ALERT"
    and "st2 = fst (on_event E now2 (run E st1 mid) MON_ALERT)"
  shows "alertLast st = last (0 # alertPlayed st) \<and>
         (if ALERT_LENGTH E \<le> now1 - alertLast st
          then alertPlayed st1 = alertPlayed st @ [now1] \<and> alertLast st1 = now1
          else st1 = st) \<and>
         alertLast (run E st1 mid) = alertLast st1 \<and>
         alertPlayed (run E st1 mid) = alertPlayed st1 \<and>
         (if ALERT_LENGTH E \<le> now2 - alertLast st1
          then alertPlayed st2 = alertPlayed st1 @ [now2] \<and> alertLast st2 = now2
          else alertPlayed st2 = alertPlayed st1 \<and> alertLast st2 = alertLast st1) \<and>
         (now2 - now1 < ALERT_LENGTH E \<longrightarrow>
            length (alertPlayed st2) \<le> length (alertPlayed st) + 1 \<and>
            (ALERT_LENGTH E \<le> now1 - alertLast st \<longrightarrow> alertPlayed st2 = alertPlayed st @ [now1]))"
proof -
  from run_alert_inv[of "init E fs freq gain cal g" E acts] assms(1)
  have inv: "alertLast st = last (0 # alertPlayed st)" by (simp add: init_alert)
  from run_alert_other[OF assms(3), of E st1]
  have mid: "alertLast (run E st1 mid) = alertLast st1"
    "alertPlayed (run E st1 mid) = alertPlayed st1" by simp_all
  have one: "if ALERT_LENGTH E \<le> now1 - alertLast st
          then alertPlayed st1 = alertPlayed st @ [now1] \<and> alertLast st1 = now1
          else st1 = st"
    using assms(2) by (simp add: on_mon_alert_def)
  have two: "if ALERT_LENGTH E \<le> now2 - alertLast st1
          then alertPlayed st2 = alertPlayed st1 @ [now2] \<and> alertLast st2 = now2
          else alertPlayed st2 = alertPlayed st1 \<and> alertLast st2 = alertLast st1"
    using assms(4) mid by (simp add: on_mon_alert_def)
  have pair: "length (alertPlayed st2) \<le> length (alertPlayed st) + 1 \<and>
      (ALERT_LENGTH E \<le> now1 - alertLast st \<longrightarrow> alertPlayed st2 = alertPlayed st @ [now1])"
    if "now2 - now1 < ALERT_LENGTH E"
  proof (cases "ALERT_LENGTH E \<le> now1 - alertLast st")
    case True
    with one have 1: "alertPlayed st1 = alertPlayed st @ [now1]" "alertLast st1 = now1"
      by simp_all
    with that two have "alertPlayed st2 = alertPlayed st1" by (simp split: if_splits)
    with 1 True show ?thesis by simp
  next
    case False
    with one have "st1 = st" by simp
    with two False show ?thesis by (auto split: if_splits)
  qed
  from inv one mid two pair show ?thesis by blast
qed

text \<open>
  An instance: ALERT_LENGTH 5, MON_ALERT events at 100 and 102 after start-up with a dispatch
  at 101 between them; one alert, at 100.
\<close>

theorem alert_debounce_witness:
  "alertLast (init demo_env [100, 101] 100 0 0 True) = 0 \<and>
   ALERT_LENGTH demo_env \<le> 100 - alertLast (init demo_env [100, 101] 100 0 0 True) \<and>
   (102 :: real) - 100 < ALERT_LENGTH demo_env \<and>
   snd (101 :: real, Event (SCAN_DATA [1, 10] [100, 101] 101)) \<noteq> Event MON_ALERT \<and>
   alertPlayed (fst (on_event demo_env 102
      (run demo_env
         (fst (on_event demo_env 100 (run demo_env (init demo_env [100, 101] 100 0 0 True) [])
            MON_ALERT))
         [(101, Event (SCAN_DATA [1, 10] [100, 101] 101))])
      MON_ALERT)) = [100]"
  using alert_debounce[where E = demo_env and fs = "[100, 101]" and freq = 100 and gain = 0
      and cal = 0 and g = True and acts = "[]" and ?now1.0 = 100 and ?now2.0 = 102
      and mid = "[(101, Event (SCAN_DATA [1, 10] [100, 101] 101))]"
      and st = "run demo_env (init demo_env [100, 101] 100 0 0 True) []"
      and ?st1.0 = "fst (on_event demo_env 100
          (run demo_env (init demo_env [100, 101] 100 0 0 True) []) MON_ALERT)"
      and ?st2.0 = "fst (on_event demo_env 102
      (run demo_env
         (fst (on_event demo_env 100 (run demo_env (init demo_env [100, 101] 100 0 0 True) [])
            MON_ALERT))
         [(101, Event (SCAN_DATA [1, 10] [100, 101] 101))])
      MON_ALERT)"]
  by (simp add: on_mon_alert_def init_def start_gps_def demo_env_def)

text \<open>
  The claim as the spec words it (every such pair fires exactly once) fails for a pair that
  follows an alert closely: with ALERT_LENGTH 5 and events at 100, 101 and 102, the alert
  plays at 100 only, so the pair at 101 and 102 fires no alert.
\<close>

theorem alert_pair_silent:
  "alertPlayed (run demo_env demo_state [(100, Event MON_ALERT)]) = [100] \<and>
   alertPlayed (run demo_env demo_state
      [(100, Event MON_ALERT), (101, Event MON_ALERT), (102, Event MON_ALERT)]) = [100] \<and>
   (102 :: real) - 101 < ALERT_LENGTH demo_env"
  by (simp add: on_mon_alert_def demo_state_def demo_env_def init_def start_gps_def)

subsection \<open>C7: the exporter after a transport failure\<close>

text \<open>
  Claim C7. After a SERVER_ERROR event the server reference is \<open>None\<close> and stays so
  through the rest of the session (every later sequence of events, timer callbacks, toolbar
  and menu callbacks and file loads); nothing is sent any more. A later dispatch
  (\<open>dead\<close>) raises exactly when the same dispatch with a server (\<open>live\<close>) would, and
  leaves the same monitors; every record the live dispatch would have sent is the record
  of a signal in the history of one of these monitors.
\<close>

theorem exporter_dead_after_server_error:
  assumes "st1 = run E (fst (on_event E now st (SERVER_ERROR msg))) acts"
    and "live = on_event E now' (st1\<lparr>server := Some ()\<rparr>) (SCAN_DATA l f ts)"
    and "dead = on_event E now' st1 (SCAN_DATA l f ts)"
  shows "server st1 = None \<and> sent st1 = sent st \<and>
         sent (fst dead) = sent st \<and> server (fst dead) = None \<and>
         snd dead = snd live \<and> monitors (fst dead) = monitors (fst live) \<and>
         (\<forall>x. x \<in> set (drop (length (sent st1)) (sent (fst live))) \<longrightarrow>
              (\<exists>m\<in>set (monitors (fst dead)). \<exists>s\<in>set (signals m).
                  x = format_recording (frequency m) s))"
proof -
  have s0: "server (fst (on_event E now st (SERVER_ERROR msg))) = None"
    and t0: "sent (fst (on_event E now st (SERVER_ERROR msg))) = sent st"
    by (simp_all add: on_server_error_def)
  from run_dead[OF s0, of E acts] t0 assms(1) have st1: "server st1 = None" "sent st1 = sent st"
    by simp_all
  from on_event_dead[OF st1(1), of E now' "SCAN_DATA l f ts"] st1(2) assms(3)
  have d: "server (fst dead) = None" "sent (fst dead) = sent st" by simp_all
  from on_scan_data_server_independent[where E=E and st=st1 and srv="Some ()" and l=l and f=f and ts=ts] assms(2,3)
  have ind: "monitors (fst dead) = monitors (fst live)" "snd dead = snd live" by simp_all
  have hist: "\<exists>m\<in>set (monitors (fst dead)). \<exists>s\<in>set (signals m).
      x = format_recording (frequency m) s"
    if "x \<in> set (drop (length (sent st1)) (sent (fst live)))" for x
  proof -
    from that assms(2) have "x \<in> set (drop (length (sent (st1\<lparr>server := Some ()\<rparr>)))
        (sent (fst (on_scan_data E (st1\<lparr>server := Some ()\<rparr>) l f ts))))" by simp
    from on_scan_data_sent_history[OF this] ind(1) assms(2) show ?thesis by simp
  qed
  from st1 d ind hist show ?thesis by blast
qed

text \<open>
  An instance: after the failure a signal opens at 5 and closes at 8. It is in the history
  of its monitor, nothing is sent, and a live server would have been sent its record.
\<close>

theorem exporter_dead_after_server_error_witness:
  "server (fst (on_event demo_env 1 demo_state (SERVER_ERROR ''refused''))) = None \<and>
   monitors (fst (on_event demo_env 9
       (run demo_env (fst (on_event demo_env 1 demo_state (SERVER_ERROR ''refused'')))
          [(5, Event (SCAN_DATA [10, 1] [100, 101] 5))])
       (SCAN_DATA [1, 1] [100, 101] 8))) =
     [demo_monitor\<lparr>signals := [\<lparr>start = 5, sig_end = Some 8, position = None\<rparr>]\<rparr>] \<and>
   sent (fst (on_event demo_env 9
       (run demo_env (fst (on_event demo_env 1 demo_state (SERVER_ERROR ''refused'')))
          [(5, Event (SCAN_DATA [10, 1] [100, 101] 5))])
       (SCAN_DATA [1, 1] [100, 101] 8))) = [] \<and>
   sent (fst (on_event demo_env 9
       ((run demo_env (fst (on_event demo_env 1 demo_state (SERVER_ERROR ''refused'')))
          [(5, Event (SCAN_DATA [10, 1] [100, 101] 5))])\<lparr>server := Some ()\<rparr>)
       (SCAN_DATA [1, 1] [100, 101] 8))) =
     [\<lparr>rec_frequency = 100, rec_start = 5, rec_end = Some 8, rec_position = None\<rparr>]"
  using exporter_dead_after_server_error[where E = demo_env and now = 1 and st = demo_state
      and msg = "''refused''" and acts = "[(5, Event (SCAN_DATA [10, 1] [100, 101] 5))]"
      and now' = 9 and l = "[1, 1]" and f = "[100, 101]" and ts = 8
      and ?st1.0 = "run demo_env (fst (on_event demo_env 1 demo_state (SERVER_ERROR ''refused'')))
          [(5, Event (SCAN_DATA [10, 1] [100, 101] 5))]"
      and live = "on_event demo_env 9
       ((run demo_env (fst (on_event demo_env 1 demo_state (SERVER_ERROR ''refused'')))
          [(5, Event (SCAN_DATA [10, 1] [100, 101] 5))])\<lparr>server := Some ()\<rparr>)
       (SCAN_DATA [1, 1] [100, 101] 8)"
      and dead = "on_event demo_env 9
       (run demo_env (fst (on_event demo_env 1 demo_state (SERVER_ERROR ''refused'')))
          [(5, Event (SCAN_DATA [10, 1] [100, 101] 5))])
       (SCAN_DATA [1, 1] [100, 101] 8)"]
  by (simp add: demo_simps on_server_error_def)

subsection \<open>C8: opening a corrupt file\<close>

text \<open>
  Claim C8. When \<^verbatim>\<open>load_recordings\<close> raises ValueError, \<^verbatim>\<open>open\<close> shows the message
  that the file is corrupt and returns; the state is the one before the call but for the
  message shown: the monitors, the file name, the frequency, gain and calibration of the
  toolbar and the saved flag are unchanged.
\<close>

theorem open_corrupt_file:
  assumes "load_recordings E fn = Inl ValueError"
  shows "open_file E st fn = (st\<lparr>messages := messages st @ [corrupt_msg fn]\<rparr>, None) \<and>
         monitors (fst (open_file E st fn)) = monitors st \<and>
         filename (fst (open_file E st fn)) = filename st \<and>
         toolbar_freq (fst (open_file E st fn)) = toolbar_freq st \<and>
         toolbar_gain (fst (open_file E st fn)) = toolbar_gain st \<and>
         toolbar_cal (fst (open_file E st fn)) = toolbar_cal st \<and>
         isSaved (fst (open_file E st fn)) = isSaved st"
  using assms by (simp add: open_file_def)

text \<open>An instance: the message names the file without its directory.\<close>

theorem open_corrupt_file_witness:
  "load_recordings demo_env ''/home/al/scan.rfmon'' = Inl ValueError \<and>
   open_file demo_env demo_state ''/home/al/scan.rfmon'' =
     (demo_state\<lparr>messages := [CHR 0x27 # ''scan.rfmon'' @ CHR 0x27 # '' is corrupt.'']\<rparr>, None)"
  using open_corrupt_file[where E = demo_env and fn = "''/home/al/scan.rfmon''" and st = demo_state]
  by (simp add: demo_env_def demo_state_def init_def start_gps_def corrupt_msg_def path_tail_def)

subsection \<open>C9: restart of the position source\<close>




subsection \<open>C10: the first alert of a session\<close>

text \<open>
  Claim C10. The last-alert timestamp is 0 at start-up and stays 0 until the first
  MON_ALERT event, whatever else happens before. So the first MON_ALERT event of a session,
  at any clock reading of at least ALERT_LENGTH, plays the alert and sets the timestamp.
\<close>

theorem first_alert_fires:
  assumes "\<forall>a\<in>set acts. snd a \<noteq> Event MON_ALERT"
    and "ALERT_LENGTH E \<le> now"
    and "st = run E (init E fs freq gain cal g) acts"
  shows "alertLast (init E fs freq gain cal g) = 0 \<and> alertLast st = 0 \<and> alertPlayed st = [] \<and>
         alertPlayed (step E st (now, Event MON_ALERT)) = [now] \<and>
         alertLast (step E st (now, Event MON_ALERT)) = now"
proof -
  from run_alert_other[OF assms(1), of E "init E fs freq gain cal g"] assms(3)
  have "alertLast st = 0" "alertPlayed st = []" by (simp_all add: init_alert)
  with assms(2) show ?thesis by (simp add: on_mon_alert_def init_alert)
qed

text \<open>An instance: three other actions, then the first MON_ALERT at clock reading 1000.\<close>

theorem first_alert_fires_witness:
  "ALERT_LENGTH demo_env \<le> 1000 \<and>
   alertPlayed (step demo_env (run demo_env (init demo_env [100, 101] 100 0 0 True)
      [(1, Event CHANGED), (2, Rec True), (3, Event (GPS_WARN ''weak''))])
      (1000, Event MON_ALERT)) = [1000]"
  using first_alert_fires[where E = demo_env and fs = "[100, 101]" and freq = 100 and gain = 0
      and cal = 0 and g = True and now = 1000
      and acts = "[(1, Event CHANGED), (2, Rec True), (3, Event (GPS_WARN ''weak''))]"
      and st = "run demo_env (init demo_env [100, 101] 100 0 0 True)
      [(1, Event CHANGED), (2, Rec True), (3, Event (GPS_WARN ''weak''))]"]
  by (simp add: demo_env_def)

end
